theory Spec2Isabelle
  imports Main "HOL-Library.AList"
begin

section \<open>JavaScript values and objects\<close>

text \<open>
  The values a document stores. Numbers are the integer-valued ones (no NaN, no
  fractions); an object value is a reference, compared by identity as \<open>===\<close> does.
\<close>

datatype jsval = JUndefined | JNull | JBool bool | JNum int | JStr string | JObj nat

text \<open>
  A plain object used as a mapping: its own properties in insertion order. Reading a
  property finds the first entry of the key. The values of the model include neither
  \<open>Object.prototype\<close> nor the functions it lends to every object, so no stored value is
  identical to one of them.
\<close>

type_synonym jsobj = "(string \<times> jsval) list"

definition has :: "('k \<times> 'v) list \<Rightarrow> 'k \<Rightarrow> bool" where
  "has obj key = (map_of obj key \<noteq> None)"

definition prop_of :: "jsobj \<Rightarrow> string \<Rightarrow> jsval" where
  "prop_of obj key = (case map_of obj key of Some v \<Rightarrow> v | None \<Rightarrow> JUndefined)"

fun truthy :: "jsval \<Rightarrow> bool" where
  "truthy JUndefined = False"
| "truthy JNull = False"
| "truthy (JBool b) = b"
| "truthy (JNum n) = (n \<noteq> 0)"
| "truthy (JStr s) = (s \<noteq> [])"
| "truthy (JObj r) = True"

text \<open>
  The assignment \<open>obj[key] = v\<close>: the entry is replaced in place, a new key is appended.
  \<open>__proto__\<close> is an accessor of \<open>Object.prototype\<close>: on an object with no own property of
  that name the assignment runs its setter and adds no own property. (The setter gives
  the object another prototype when \<open>v\<close> is an object or null; the own properties, which
  are what the model holds, stay as they are.)
\<close>

definition assign :: "(string \<times> 'v) list \<Rightarrow> string \<Rightarrow> 'v \<Rightarrow> (string \<times> 'v) list" where
  "assign obj key v =
     (if key = ''__proto__'' \<and> \<not> has obj key then obj else AList.update key v obj)"

definition strictEq :: "jsval \<Rightarrow> jsval \<Rightarrow> bool" where
  "strictEq a b = (a = b)"


section \<open>The fields module: schemas, classes and documents\<close>

datatype ftype = TBoolean | TDate | TNumber | TString | TNamed string

record fieldDefinition =
  fd_type :: "ftype option"
  fd_default :: jsval

text \<open>
  A class with its schema: the schema's name, its own fields (\<open>_fields\<close>) and the
  parent class, if there is one.
\<close>

datatype cls = Cls (getName: string) (own_fields: "(string \<times> fieldDefinition) list")
  (getParentClass: "cls option")

text \<open>
  Modelled from the spec: \<open>Schema.getField\<close>, \<open>Schema.addField\<close> and
  \<open>Schema.addFields\<close> are not among the sources. The schema owns a map from field
  name to FieldDefinition in insertion order; \<open>getField\<close> reads the schema's own map
  (the callers walk the parent links themselves) and \<open>addField\<close> assigns one entry. The
  specification holds that the mandatory entries are never overridden: \<open>addFields\<close>
  installs the declared fields in order and leaves an entry that the schema holds
  already as it is.
\<close>

definition getField :: "cls \<Rightarrow> string \<Rightarrow> fieldDefinition option" where
  "getField c fieldName = map_of (own_fields c) fieldName"

definition addField ::
  "(string \<times> fieldDefinition) list \<Rightarrow> string \<Rightarrow> fieldDefinition \<Rightarrow> (string \<times> fieldDefinition) list" where
  "addField fs fieldName fieldDef = AList.update fieldName fieldDef fs"

fun addFields ::
  "(string \<times> fieldDefinition) list \<Rightarrow> (string \<times> fieldDefinition) list \<Rightarrow> (string \<times> fieldDefinition) list" where
  "addFields fs [] = fs"
| "addFields fs ((k, d) # rest) = addFields (if has fs k then fs else addField fs k d) rest"

text \<open>\<open>initSchema\<close>: the schema's fields after the hook has run, for a schema with the
  given name and parent and the definition's \<open>fields\<close>.\<close>

definition initSchema :: "string \<Rightarrow> cls option \<Rightarrow> (string \<times> fieldDefinition) list \<Rightarrow> cls" where
  "initSchema name parent definition_fields =
     (let fs0 = [];
          fs1 = addField fs0 ''_id'' \<lparr>fd_type = Some TString, fd_default = JNull\<rparr>;
          fs2 = (if parent \<noteq> None
                 then addField fs1 ''_type'' \<lparr>fd_type = Some TString, fd_default = JStr name\<rparr>
                 else fs1)
      in Cls name (addFields fs2 definition_fields) parent)"

text \<open>
  A class with its ancestors: \<open>initSchema\<close> runs once for every class, the parent's
  before the child's. The declarations are the name and the definition's \<open>fields\<close> of
  each ancestor, the parent first; the result is the parent class, if there is one.
\<close>

fun compose_chain :: "(string \<times> (string \<times> fieldDefinition) list) list \<Rightarrow> cls option" where
  "compose_chain [] = None"
| "compose_chain (decl # ancestors) =
     Some (initSchema (fst decl) (compose_chain ancestors) (snd decl))"

text \<open>A document: its class (\<open>this.constructor\<close>), \<open>_values\<close>, \<open>_modified\<close> and the
  other own properties an instance may carry.\<close>

record document =
  doc_constructor :: cls
  doc_values :: jsobj
  doc_modified :: jsobj
  doc_own :: jsobj

text \<open>\<open>initInstance\<close>: an object argument becomes \<open>_values\<close>.\<close>

definition initInstance :: "cls \<Rightarrow> jsobj option \<Rightarrow> document" where
  "initInstance c attrs =
     \<lparr>doc_constructor = c,
      doc_values = (case attrs of Some a \<Rightarrow> a | None \<Rightarrow> []),
      doc_modified = [],
      doc_own = []\<rparr>"

subsection \<open>get\<close>

text \<open>The do-while of \<open>get\<close>: the default of the first class, from the document's class
  upwards, whose schema has the field; nothing when no class has it.\<close>

fun get_default :: "cls \<Rightarrow> string \<Rightarrow> jsval" where
  "get_default (Cls n fs parent) fieldName =
     (case getField (Cls n fs parent) fieldName of
        Some fieldDef \<Rightarrow> fd_default fieldDef
      | None \<Rightarrow> (case parent of Some p \<Rightarrow> get_default p fieldName | None \<Rightarrow> JUndefined))"

text \<open>\<open>get(fieldName)\<close> with one string argument.\<close>

definition get :: "document \<Rightarrow> string \<Rightarrow> jsval" where
  "get this fieldName =
     (if fieldName = ''_id'' \<and> \<not> truthy (prop_of (doc_values this) ''_id'') then JUndefined
      else if has (doc_modified this) fieldName then prop_of (doc_modified this) fieldName
      else if has (doc_values this) fieldName then prop_of (doc_values this) fieldName
      else get_default (doc_constructor this) fieldName)"

subsection \<open>set\<close>

datatype error = CastError string | Error string

text \<open>
  \<open>Astronomy.Utils.convertFieldValueByType\<close> is not among the sources: the cast is a
  parameter \<open>conv\<close>, which returns the cast value or fails. The do-while of \<open>set\<close>
  passes the value through the type of every class of the chain that declares the
  field (it does not stop at the first).
\<close>

fun set_cast :: "(jsval \<Rightarrow> ftype \<Rightarrow> error + jsval) \<Rightarrow> cls \<Rightarrow> string \<Rightarrow> jsval \<Rightarrow> error + jsval" where
  "set_cast conv (Cls n fs parent) fieldName v =
     (case (case getField (Cls n fs parent) fieldName of
              Some fieldDef \<Rightarrow>
                (case fd_type fieldDef of Some t \<Rightarrow> conv v t | None \<Rightarrow> Inr v)
            | None \<Rightarrow> Inr v) of
        Inl e \<Rightarrow> Inl e
      | Inr v' \<Rightarrow> (case parent of Some p \<Rightarrow> set_cast conv p fieldName v' | None \<Rightarrow> Inr v'))"

text \<open>\<open>set(fieldName, value)\<close> with a string and a value: the document afterwards, or the
  error of the cast.\<close>

definition set_field ::
  "(jsval \<Rightarrow> ftype \<Rightarrow> error + jsval) \<Rightarrow> document \<Rightarrow> string \<Rightarrow> jsval \<Rightarrow> error + document" where
  "set_field conv this fieldName v =
     (if fieldName = ''_id'' \<and> truthy (prop_of (doc_values this) fieldName) then Inr this
      else case set_cast conv (doc_constructor this) fieldName v of
        Inl e \<Rightarrow> Inl e
      | Inr v' \<Rightarrow>
          if truthy (prop_of (doc_values this) fieldName)
             \<and> strictEq v' (prop_of (doc_values this) fieldName)
          then Inr this
          else Inr (this\<lparr>doc_modified := assign (doc_modified this) fieldName v'\<rparr>))"

subsection \<open>getModified\<close>

text \<open>\<open>_.keys\<close>, \<open>_.pick\<close> and \<open>_.difference\<close> of underscore, on objects whose keys are
  distinct.\<close>

definition keys :: "('k \<times> 'v) list \<Rightarrow> 'k list" where
  "keys obj = map fst obj"

definition pick :: "(string \<times> 'v) list \<Rightarrow> string list \<Rightarrow> (string \<times> 'v) list" where
  "pick obj ks =
     foldl (\<lambda>copy k. case map_of obj k of Some v \<Rightarrow> assign copy k v | None \<Rightarrow> copy) [] ks"

definition difference :: "'k list \<Rightarrow> 'k list \<Rightarrow> 'k list" where
  "difference xs ys = filter (\<lambda>x. x \<notin> set ys) xs"

text \<open>What the object returned by \<open>getModified\<close> holds under a key: a value of the
  document, or a FieldDefinition object of a schema.\<close>

datatype old_entry = OldValue jsval | OldFieldDefinition fieldDefinition

text \<open>The do-while of \<open>getModified\<close> for one missing key: what \<open>getField\<close> returns in
  the first class of the chain where it is not undefined.\<close>

fun getModified_missing :: "cls \<Rightarrow> string \<Rightarrow> fieldDefinition option" where
  "getModified_missing (Cls n fs parent) missingKey =
     (case getField (Cls n fs parent) missingKey of
        Some fieldDef \<Rightarrow> Some fieldDef
      | None \<Rightarrow> (case parent of Some p \<Rightarrow> getModified_missing p missingKey | None \<Rightarrow> None))"

definition getModified :: "document \<Rightarrow> bool \<Rightarrow> (string \<times> old_entry) list" where
  "getModified this old =
     (if old then
        (let modifiedKeys = keys (doc_modified this);
             oldValues = map (\<lambda>kv. (fst kv, OldValue (snd kv))) (pick (doc_values this) modifiedKeys);
             oldValuesKeys = keys oldValues
         in if length modifiedKeys \<noteq> length oldValuesKeys
            then foldl (\<lambda>acc missingKey.
                         case getModified_missing (doc_constructor this) missingKey of
                           Some fieldDef \<Rightarrow> assign acc missingKey (OldFieldDefinition fieldDef)
                         | None \<Rightarrow> acc)
                   oldValues (difference modifiedKeys oldValuesKeys)
            else oldValues)
      else map (\<lambda>kv. (fst kv, OldValue (snd kv))) (doc_modified this))"

subsection \<open>clone\<close>





section \<open>The validation engine: documentValidate\<close>

text \<open>
  The documents the engine walks: a document has a class and own properties; a property
  holds a primitive (or an opaque object such as a date), a nested document, an array or
  a plain object.
\<close>

datatype vval = VPrim jsval | VInst vdoc | VArray "vval list" | VPlain "(string \<times> vval) list"
  and vdoc = VDoc (className: string) (properties: "(string \<times> vval) list")

fun isNil :: "vval \<Rightarrow> bool" where
  "isNil (VPrim JUndefined) = True"
| "isNil (VPrim JNull) = True"
| "isNil _ = False"

text \<open>One entry of a ValidationError's \<open>details\<close>, and what a call can throw.\<close>

record details =
  d_name :: string
  d_type :: string
  d_message :: string

datatype exn = ValidationError "details list" string | OtherError string

datatype 'a outcome = Returns 'a | Throws exn

datatype field_kind = ObjectField | ListField (isClass: bool) | ScalarField

text \<open>A field of a class: \<open>validate\<close> is the type-level validation, called with the
  document, the prefixed name, the nested name and the value; it throws or returns.\<close>

record field =
  f_name :: string
  f_transient :: bool
  f_getOptional :: "vdoc \<Rightarrow> bool"
  f_kind :: field_kind
  f_validate :: "vdoc \<Rightarrow> string \<Rightarrow> string \<Rightarrow> vval \<Rightarrow> exn option"

record validator =
  v_type :: string
  v_param :: jsval
  v_message :: string

text \<open>
  What \<open>documentValidate\<close> imports and calls but the sources do not hold, as parameters:
  \<open>Meteor.isServer\<close>, \<open>castNested\<close> (it assigns to properties of the document: the
  parameter gives the properties afterwards), \<open>isNestedFieldName\<close>, \<open>traverse\<close> (the
  calls of its callback, in order, each with the nested document and the nested name), the static
  class methods \<open>getValidationOrder\<close>, \<open>getField\<close> and \<open>getValidators\<close> (by class name),
  the \<open>Validators\<close> registry (by validator type), the document's \<open>get\<close>, and the pairs
  that lodash's \<open>_.each\<close> visits on an object that is no array (\<open>eachObject\<close>: the
  elements of an array-like object, the own properties of another).
\<close>

record env =
  isServer :: bool
  castNested :: "vdoc \<Rightarrow> (string \<times> vval) list"
  isNestedFieldName :: "string \<Rightarrow> bool"
  traverse :: "vdoc \<Rightarrow> string \<Rightarrow> (vdoc \<times> string) list"
  getValidationOrder :: "string \<Rightarrow> string list"
  classGetField :: "string \<Rightarrow> string \<Rightarrow> field option"
  getValidators :: "string \<Rightarrow> string \<Rightarrow> validator list"
  Validators :: "string \<Rightarrow> vdoc \<Rightarrow> string \<Rightarrow> string \<Rightarrow> vval \<Rightarrow> validator \<Rightarrow> exn option"
  docGet :: "vdoc \<Rightarrow> string \<Rightarrow> vval"
  eachObject :: "vval \<Rightarrow> (string \<times> vval) list"

subsection \<open>Strings and iteration\<close>

text \<open>\<open>s.lastIndexOf(t)\<close> and \<open>s.substr(0, len)\<close>.\<close>

definition lastIndexOf :: "string \<Rightarrow> string \<Rightarrow> int" where
  "lastIndexOf s t =
     (case filter (\<lambda>i. take (length t) (drop i s) = t) (rev [0..<Suc (length s)]) of
        [] \<Rightarrow> - 1
      | i # _ \<Rightarrow> int i)"

definition substr0 :: "string \<Rightarrow> int \<Rightarrow> string" where
  "substr0 s len = (if len \<le> 0 then [] else take (nat len) s)"

text \<open>The decimal digits of an array index, as string concatenation renders it.\<close>

function show_nat :: "nat \<Rightarrow> string" where
  "show_nat n =
     (if n < 10 then [''0123456789'' ! n]
      else show_nat (n div 10) @ [''0123456789'' ! (n mod 10)])"
  by pat_completeness auto
termination
  by (relation "measure id") auto

declare show_nat.simps [simp del]

text \<open>The pairs \<open>_.each(value, (element, index) => ...)\<close> visits, index first: the
  elements of an array, each with its index; on another object, what \<open>eachObject\<close> gives.
  A primitive has no element that is a document.\<close>

fun each_entries :: "env \<Rightarrow> vval \<Rightarrow> (string \<times> vval) list" where
  "each_entries e (VArray xs) = zip (map show_nat [0..<length xs]) xs"
| "each_entries e (VPrim v) = []"
| "each_entries e (VInst d) = eachObject e (VInst d)"
| "each_entries e (VPlain ps) = eachObject e (VPlain ps)"

text \<open>The elements that are documents (\<open>element instanceof AstroClass\<close>), with their
  index.\<close>

fun instances :: "(string \<times> vval) list \<Rightarrow> (string \<times> vdoc) list" where
  "instances [] = []"
| "instances ((i, VInst d) # rest) = (i, d) # instances rest"
| "instances (_ # rest) = instances rest"

subsection \<open>The walk\<close>

text \<open>\<open>catchValidationError\<close>: what running \<open>func\<close> gave (\<open>r\<close>) and the errors collected
  so far; the errors afterwards, or the error thrown on.\<close>

fun catchValidationError :: "bool \<Rightarrow> unit outcome \<Rightarrow> details list \<Rightarrow> details list outcome" where
  "catchValidationError stopOnFirstError (Returns u) errors = Returns errors"
| "catchValidationError stopOnFirstError (Throws (ValidationError ds msg)) errors =
     (if stopOnFirstError then Throws (ValidationError ds msg) else Returns (errors @ ds))"
| "catchValidationError stopOnFirstError (Throws (OtherError msg)) errors = Throws (OtherError msg)"

text \<open>A sequence of calls, each of which throws or returns: the first exception ends
  it.\<close>

fun first_throw :: "exn option list \<Rightarrow> unit outcome" where
  "first_throw [] = Returns ()"
| "first_throw (None # rest) = first_throw rest"
| "first_throw (Some e # rest) = Throws e"

text \<open>The function passed to \<open>catchValidationError\<close> for a field's own value: the
  type-level validation, then the validators of the field, in order.\<close>

definition validate_value :: "env \<Rightarrow> vdoc \<Rightarrow> field \<Rightarrow> string \<Rightarrow> string \<Rightarrow> vval \<Rightarrow> unit outcome" where
  "validate_value e doc fld pre name v =
     first_throw
       (f_validate fld doc (pre @ name) name v
        # map (\<lambda>vd. Validators e (v_type vd) doc (pre @ name) name v vd)
            (getValidators e (className doc) name))"

text \<open>\<open>catchValidationError(() => documentValidate(...))\<close>: \<open>r\<close> is what the nested call
  gave, \<open>None\<close> when it does not return within its depth.\<close>

definition catch_call :: "bool \<Rightarrow> unit outcome option \<Rightarrow> details list \<Rightarrow> details list outcome option" where
  "catch_call stopOnFirstError r errors =
     (case r of None \<Rightarrow> None | Some r' \<Rightarrow> Some (catchValidationError stopOnFirstError r' errors))"

text \<open>A loop whose body is such a call: \<open>call\<close> is the nested call for one item.\<close>

fun validate_each ::
  "('a \<Rightarrow> unit outcome option) \<Rightarrow> bool \<Rightarrow> 'a list \<Rightarrow> details list \<Rightarrow> details list outcome option" where
  "validate_each call stopOnFirstError [] errors = Some (Returns errors)"
| "validate_each call stopOnFirstError (x # xs) errors =
     (case catch_call stopOnFirstError (call x) errors of
        None \<Rightarrow> None
      | Some (Throws ex) \<Rightarrow> Some (Throws ex)
      | Some (Returns errors') \<Rightarrow> validate_each call stopOnFirstError xs errors')"

text \<open>The end of the body: an object field's document is validated, or each document
  of a list field of a class. \<open>rec\<close> is \<open>documentValidate\<close> itself, for the nested calls.\<close>

definition validate_nested ::
  "(vdoc \<Rightarrow> string list option \<Rightarrow> string \<Rightarrow> bool \<Rightarrow> bool \<Rightarrow> unit outcome option)
     \<Rightarrow> env \<Rightarrow> string \<Rightarrow> bool \<Rightarrow> field \<Rightarrow> vval \<Rightarrow> details list
     \<Rightarrow> details list outcome option" where
  "validate_nested rec e pre stopOnFirstError fld v errors =
     (case f_kind fld of
        ObjectField \<Rightarrow>
          (case v of
             VInst d \<Rightarrow>
               catch_call stopOnFirstError
                 (rec d (Some (getValidationOrder e (className d)))
                    (pre @ f_name fld @ ''.'') stopOnFirstError True)
                 errors
           | _ \<Rightarrow> Some (Returns errors))
      | ListField cls \<Rightarrow>
          if cls then
            validate_each
              (\<lambda>el. rec (snd el) (Some (getValidationOrder e (className (snd el))))
                       (pre @ f_name fld @ ''.'' @ fst el @ ''.'') stopOnFirstError True)
              stopOnFirstError (instances (each_entries e v)) errors
          else Some (Returns errors)
      | ScalarField \<Rightarrow> Some (Returns errors))"

text \<open>The body of \<open>_.each(fields, (name) => ...)\<close> for one name.\<close>

definition validate_field ::
  "(vdoc \<Rightarrow> string list option \<Rightarrow> string \<Rightarrow> bool \<Rightarrow> bool \<Rightarrow> unit outcome option)
     \<Rightarrow> env \<Rightarrow> vdoc \<Rightarrow> string \<Rightarrow> bool \<Rightarrow> bool \<Rightarrow> string \<Rightarrow> details list
     \<Rightarrow> details list outcome option" where
  "validate_field rec e doc pre stopOnFirstError simulation name errors =
     (if isNestedFieldName e name then
        validate_each
          (\<lambda>nested. rec (fst nested) (Some [snd nested])
                      (pre @ substr0 name (lastIndexOf name (snd nested)))
                      stopOnFirstError simulation)
          stopOnFirstError (traverse e doc name) errors
      else case classGetField e (className doc) name of
        None \<Rightarrow> Some (Returns errors)
      | Some fld \<Rightarrow>
          if f_transient fld then Some (Returns errors)
          else if f_getOptional fld doc \<and> isNil (docGet e doc name) then Some (Returns errors)
          else case catchValidationError stopOnFirstError
                      (validate_value e doc fld pre name (docGet e doc name)) errors of
            Throws ex \<Rightarrow> Some (Throws ex)
          | Returns errors' \<Rightarrow>
              validate_nested rec e pre stopOnFirstError fld (docGet e doc name) errors')"

fun validate_fields ::
  "(vdoc \<Rightarrow> string list option \<Rightarrow> string \<Rightarrow> bool \<Rightarrow> bool \<Rightarrow> unit outcome option)
     \<Rightarrow> env \<Rightarrow> vdoc \<Rightarrow> string \<Rightarrow> bool \<Rightarrow> bool \<Rightarrow> string list \<Rightarrow> details list
     \<Rightarrow> details list outcome option" where
  "validate_fields rec e doc pre stopOnFirstError simulation [] errors = Some (Returns errors)"
| "validate_fields rec e doc pre stopOnFirstError simulation (name # names) errors =
     (case validate_field rec e doc pre stopOnFirstError simulation name errors of
        None \<Rightarrow> None
      | Some (Throws ex) \<Rightarrow> Some (Throws ex)
      | Some (Returns errors') \<Rightarrow>
          validate_fields rec e doc pre stopOnFirstError simulation names errors')"

text \<open>The end of \<open>documentValidate\<close>: the collected errors are thrown as one
  ValidationError, unless there are none.\<close>

definition throw_collected :: "details list \<Rightarrow> unit outcome" where
  "throw_collected errors =
     (if length errors > 0 then Throws (ValidationError errors (d_message (hd errors)))
      else Returns ())"

text \<open>The document after \<open>castNested\<close>, which keeps its class.\<close>

definition cast_document :: "env \<Rightarrow> vdoc \<Rightarrow> vdoc" where
  "cast_document e doc = VDoc (className doc) (castNested e doc)"

text \<open>
  \<open>documentValidate\<close>. The first argument bounds the depth of the nested calls: \<open>None\<close>
  means the walk went deeper than that. An absent \<open>fields\<close> option is \<open>None\<close>; the
  defaults of \<open>prefix\<close>, \<open>stopOnFirstError\<close> and \<open>simulation\<close> are the caller's to pass.
\<close>

primrec documentValidate ::
  "nat \<Rightarrow> env \<Rightarrow> vdoc \<Rightarrow> string list option \<Rightarrow> string \<Rightarrow> bool \<Rightarrow> bool \<Rightarrow> unit outcome option" where
  "documentValidate 0 e doc fieldNames pre stopOnFirstError simulation = None"
| "documentValidate (Suc n) e doc fieldNames pre stopOnFirstError simulation =
     (if \<not> simulation \<and> \<not> isServer e then Some (Returns ())
      else
        let doc' = cast_document e doc;
            fs = (case fieldNames of None \<Rightarrow> getValidationOrder e (className doc) | Some fs \<Rightarrow> fs)
        in case validate_fields (documentValidate n e) e doc' pre stopOnFirstError simulation fs [] of
             None \<Rightarrow> None
           | Some (Throws ex) \<Rightarrow> Some (Throws ex)
           | Some (Returns errors) \<Rightarrow> Some (throw_collected errors))"

subsection \<open>The precedence of get, in the words of the specification\<close>

fun class_chain :: "cls \<Rightarrow> cls list" where
  "class_chain (Cls n fs parent) =
     Cls n fs parent # (case parent of Some p \<Rightarrow> class_chain p | None \<Rightarrow> [])"

definition resolve_spec :: "document \<Rightarrow> string \<Rightarrow> jsval" where
  "resolve_spec this fieldName =
     (case map_of (doc_modified this) fieldName of
        Some v \<Rightarrow> v
      | None \<Rightarrow>
         (case map_of (doc_values this) fieldName of
            Some v \<Rightarrow> v
          | None \<Rightarrow>
             (case List.map_filter (\<lambda>c. map_of (own_fields c) fieldName)
                     (class_chain (doc_constructor this)) of
                fieldDef # _ \<Rightarrow> fd_default fieldDef
              | [] \<Rightarrow> JUndefined)))"

subsection \<open>The merged Schema, in the words of the specification\<close>

text \<open>
  Modelled from the spec: the sources hold no merge of a schema's fields with its
  parent's. In the specification's words the child replaces by key and the parent
  provides the rest.
\<close>

fun merged_fields :: "cls \<Rightarrow> (string \<times> fieldDefinition) list" where
  "merged_fields (Cls n fs parent) =
     (case parent of
        None \<Rightarrow> fs
      | Some p \<Rightarrow> foldl (\<lambda>acc kd. AList.update (fst kd) (snd kd) acc) (merged_fields p) fs)"

subsection \<open>Example classes\<close>

definition Animal :: cls where
  "Animal = initSchema ''Animal'' None
     [(''name'', \<lparr>fd_type = Some TString, fd_default = JStr ''anonymous''\<rparr>),
      (''legs'', \<lparr>fd_type = None, fd_default = JNum 4\<rparr>)]"

definition Dog :: cls where
  "Dog = initSchema ''Dog'' (Some Animal)
     [(''breed'', \<lparr>fd_type = Some TString, fd_default = JNull\<rparr>)]"

text \<open>A cast for the examples, which only pass values that are canonical for their field
  already: such a value is returned as it is.\<close>

definition cast_canonical :: "jsval \<Rightarrow> ftype \<Rightarrow> error + jsval" where
  "cast_canonical v t = Inr v"

subsection \<open>Example classes for the validation engine\<close>

definition lookup_prop :: "vdoc \<Rightarrow> string \<Rightarrow> vval" where
  "lookup_prop d name =
     (case map_of (properties d) name of Some v \<Rightarrow> v | None \<Rightarrow> VPrim JUndefined)"

definition not_a_string :: "string \<Rightarrow> details" where
  "not_a_string name = \<lparr>d_name = name, d_type = ''string'', d_message = ''not a string''\<rparr>"

definition string_type :: "vdoc \<Rightarrow> string \<Rightarrow> string \<Rightarrow> vval \<Rightarrow> exn option" where
  "string_type d name nestedName v =
     (case v of
        VPrim (JStr s) \<Rightarrow> None
      | _ \<Rightarrow> Some (ValidationError [not_a_string name] ''not a string''))"

definition string_field :: "string \<Rightarrow> field" where
  "string_field n =
     \<lparr>f_name = n, f_transient = False, f_getOptional = (\<lambda>d. False),
      f_kind = ScalarField, f_validate = string_type\<rparr>"

definition nested_field :: "string \<Rightarrow> field_kind \<Rightarrow> field" where
  "nested_field n k =
     \<lparr>f_name = n, f_transient = False, f_getOptional = (\<lambda>d. False),
      f_kind = k, f_validate = (\<lambda>d name nestedName v. None)\<rparr>"

definition user_fields :: "(string \<times> field) list" where
  "user_fields =
    [(''name'', string_field ''name''),
     (''email'', string_field ''email''),
     (''nickname'', (string_field ''nickname'')\<lparr>f_getOptional := (\<lambda>d. True)\<rparr>),
     (''cache'', (string_field ''cache'')\<lparr>f_transient := True\<rparr>),
     (''address'', nested_field ''address'' ObjectField),
     (''phones'', nested_field ''phones'' (ListField True))]"

definition example_env :: env where
  "example_env =
     \<lparr>isServer = True,
      castNested = properties,
      isNestedFieldName = (\<lambda>name. CHR ''.'' \<in> set name),
      traverse = (\<lambda>d name. []),
      getValidationOrder = (\<lambda>c. if c = ''User'' then map fst user_fields
                                 else if c = ''Address'' then [''city''] else [''number'']),
      classGetField = (\<lambda>c. if c = ''User'' then map_of user_fields
                            else if c = ''Address'' then map_of [(''city'', string_field ''city'')]
                            else map_of [(''number'', string_field ''number'')]),
      getValidators = (\<lambda>c name. []),
      Validators = (\<lambda>t d name nestedName v vd. None),
      docGet = lookup_prop,
      eachObject = (\<lambda>v. case v of VPlain ps \<Rightarrow> ps | VInst d \<Rightarrow> properties d | _ \<Rightarrow> [])\<rparr>"

definition user1 :: vdoc where
  "user1 = VDoc ''User''
     [(''email'', VPrim (JNum 7)),
      (''cache'', VPrim (JNum 0)),
      (''address'', VInst (VDoc ''Address'' [])),
      (''phones'', VArray [VInst (VDoc ''Phone'' [(''number'', VPrim (JStr ''1''))]),
                           VInst (VDoc ''Phone'' [])])]"

definition user2 :: vdoc where
  "user2 = VDoc ''User'' [(''nickname'', VPrim (JNum 5))]"

text \<open>A second class, with a transient object field, an optional field that has
  registered validators, and an object field and a list field of a class whose
  registered validator fails.\<close>

definition too_short :: "string \<Rightarrow> details" where
  "too_short name = \<lparr>d_name = name, d_type = ''minLength'', d_message = ''too short''\<rparr>"

definition unverified :: "string \<Rightarrow> details" where
  "unverified name = \<lparr>d_name = name, d_type = ''verified'', d_message = ''not verified''\<rparr>"

definition account_fields :: "(string \<times> field) list" where
  "account_fields =
    [(''draft'', (nested_field ''draft'' ObjectField)\<lparr>f_transient := True\<rparr>),
     (''handle'', (string_field ''handle'')\<lparr>f_getOptional := (\<lambda>d. True)\<rparr>),
     (''billing'', nested_field ''billing'' ObjectField),
     (''branches'', nested_field ''branches'' (ListField True))]"

definition account_validators :: "string \<Rightarrow> validator list" where
  "account_validators name =
     (if name = ''handle''
      then [\<lparr>v_type = ''string'', v_param = JNull, v_message = ''not a string''\<rparr>,
            \<lparr>v_type = ''minLength'', v_param = JNum 3, v_message = ''too short''\<rparr>]
      else if name = ''billing'' \<or> name = ''branches''
      then [\<lparr>v_type = ''verified'', v_param = JNull, v_message = ''not verified''\<rparr>]
      else [])"

definition account_registry ::
  "string \<Rightarrow> vdoc \<Rightarrow> string \<Rightarrow> string \<Rightarrow> vval \<Rightarrow> validator \<Rightarrow> exn option" where
  "account_registry t d name nestedName v vd =
     (if t = ''minLength''
      then (case v of
              VPrim (JStr s) \<Rightarrow>
                if v_param vd = JNum 3 \<and> length s < 3
                then Some (ValidationError [too_short name] (v_message vd))
                else None
            | _ \<Rightarrow> None)
      else if t = ''verified''
      then Some (ValidationError [unverified name] (v_message vd))
      else None)"

definition account_env :: env where
  "account_env =
     example_env
       \<lparr>classGetField := (\<lambda>c. if c = ''Account'' then map_of account_fields
                              else classGetField example_env c),
        getValidators := (\<lambda>c name. if c = ''Account'' then account_validators name else []),
        Validators := account_registry\<rparr>"

definition account1 :: vdoc where
  "account1 = VDoc ''Account''
     [(''draft'', VInst (VDoc ''Address'' [])),
      (''handle'', VPrim (JStr ''ab'')),
      (''billing'', VInst (VDoc ''Address'' [])),
      (''branches'', VArray [VPrim JNull, VInst (VDoc ''Address'' [])])]"

subsection \<open>Examples for clone and for lists of documents\<close>






section \<open>Properties of the fields module\<close>

subsection \<open>The example classes, composed\<close>

lemma Animal_eq: "Animal = Cls ''Animal''
   [(''_id'', \<lparr>fd_type = Some TString, fd_default = JNull\<rparr>),
    (''name'', \<lparr>fd_type = Some TString, fd_default = JStr ''anonymous''\<rparr>),
    (''legs'', \<lparr>fd_type = None, fd_default = JNum 4\<rparr>)] None"
  by (simp add: Animal_def initSchema_def addField_def has_def)

lemma Dog_eq: "Dog = Cls ''Dog''
   [(''_id'', \<lparr>fd_type = Some TString, fd_default = JNull\<rparr>),
    (''_type'', \<lparr>fd_type = Some TString, fd_default = JStr ''Dog''\<rparr>),
    (''breed'', \<lparr>fd_type = Some TString, fd_default = JNull\<rparr>)] (Some Animal)"
  by (simp add: Dog_def initSchema_def addField_def has_def)

subsection \<open>get\<close>

lemma get_default_chain:
  "get_default c fieldName =
     (case List.map_filter (\<lambda>k. map_of (own_fields k) fieldName) (class_chain c) of
        fieldDef # _ \<Rightarrow> fd_default fieldDef
      | [] \<Rightarrow> JUndefined)"
proof (induction c fieldName rule: get_default.induct)
  case (1 n fs parent fieldName)
  show ?case
  proof (cases "map_of fs fieldName")
    case None
    then show ?thesis
      using "1.IH" by (cases parent) (simp_all add: getField_def)
  next
    case (Some fieldDef)
    then show ?thesis
      by (simp add: getField_def)
  qed
qed

text \<open>
  C6. For a field name other than \<open>_id\<close>, \<open>get\<close> returns the entry of the modified
  mapping if there is one, otherwise the entry of the values mapping if there is one,
  otherwise the default of the first class of the parent chain that declares the field,
  otherwise nothing.
\<close>

theorem get_precedence:
  "fieldName \<noteq> ''_id'' \<Longrightarrow> get this fieldName = resolve_spec this fieldName"
  by (simp add: get_def resolve_spec_def has_def prop_of_def get_default_chain
      split: option.splits)

theorem get_precedence_witness:
  "''legs'' \<noteq> ''_id'' \<and> get (initInstance Dog None) ''legs'' = JNum 4
   \<and> resolve_spec (initInstance Dog None) ''legs'' = JNum 4"
  using get_precedence [of "''legs''" "initInstance Dog None"]
  by (simp add: get_def has_def initInstance_def Dog_eq Animal_eq getField_def)

subsection \<open>set\<close>

lemma assign_update: "key \<noteq> ''__proto__'' \<Longrightarrow> assign obj key v = AList.update key v obj"
  by (simp add: assign_def)


text \<open>
  C3, as the code has it. \<open>set\<close> refuses to change \<open>_id\<close> when the values mapping holds a
  truthy \<open>_id\<close>: the document stays as it is, and so does what \<open>get\<close> resolves. Without
  one, \<open>set('_id', y)\<close> records the cast of \<open>y\<close> in the modified mapping, where a later
  \<open>set\<close> replaces it, and \<open>get('_id')\<close> returns nothing.
\<close>

theorem set_id_guard:
  "(truthy (prop_of (doc_values this) ''_id'') \<longrightarrow> set_field conv this ''_id'' y = Inr this)
   \<and> (\<not> truthy (prop_of (doc_values this) ''_id'') \<longrightarrow>
        set_cast conv (doc_constructor this) ''_id'' y = Inr c \<longrightarrow>
        set_field conv this ''_id'' y
          = Inr (this\<lparr>doc_modified := AList.update ''_id'' c (doc_modified this)\<rparr>)
        \<and> get (this\<lparr>doc_modified := AList.update ''_id'' c (doc_modified this)\<rparr>) ''_id'' = JUndefined)"
  by (simp add: set_field_def get_def assign_update)

theorem set_id_guard_witness:
  "set_field cast_canonical (initInstance Animal (Some [(''_id'', JStr ''a'')])) ''_id'' (JStr ''b'')
     = Inr (initInstance Animal (Some [(''_id'', JStr ''a'')]))
   \<and> set_field cast_canonical (initInstance Animal None) ''_id'' (JStr ''b'')
     = Inr ((initInstance Animal None)\<lparr>doc_modified := [(''_id'', JStr ''b'')]\<rparr>)
   \<and> get ((initInstance Animal None)\<lparr>doc_modified := [(''_id'', JStr ''b'')]\<rparr>) ''_id'' = JUndefined"
proof -
  have c: "set_cast cast_canonical Animal ''_id'' (JStr ''b'') = Inr (JStr ''b'')"
    by (simp add: Animal_eq getField_def cast_canonical_def)
  show ?thesis
    using set_id_guard [of "initInstance Animal (Some [(''_id'', JStr ''a'')])" cast_canonical "JStr ''b''"]
      set_id_guard [of "initInstance Animal None" cast_canonical "JStr ''b''" "JStr ''b''"] c
    by (simp add: initInstance_def prop_of_def)
qed

text \<open>
  C3 as stated fails on a new document: after \<open>set('_id', 'a')\<close> and \<open>set('_id', 'b')\<close>
  the modified mapping holds \<open>'b'\<close>, and \<open>get('_id')\<close> is not \<open>'a'\<close>.
\<close>

theorem set_id_twice_counterexample:
  "truthy (JStr ''a'')
   \<and> set_field cast_canonical (initInstance Animal None) ''_id'' (JStr ''a'')
       = Inr ((initInstance Animal None)\<lparr>doc_modified := [(''_id'', JStr ''a'')]\<rparr>)
   \<and> set_field cast_canonical ((initInstance Animal None)\<lparr>doc_modified := [(''_id'', JStr ''a'')]\<rparr>)
         ''_id'' (JStr ''b'')
       = Inr ((initInstance Animal None)\<lparr>doc_modified := [(''_id'', JStr ''b'')]\<rparr>)
   \<and> get ((initInstance Animal None)\<lparr>doc_modified := [(''_id'', JStr ''b'')]\<rparr>) ''_id'' \<noteq> JStr ''a''"
  by (simp add: set_field_def get_def initInstance_def prop_of_def Animal_eq getField_def
      cast_canonical_def assign_update)







subsection \<open>getModified\<close>

lemma keys_assign: "fst ` set (assign obj key v) \<subseteq> {key} \<union> fst ` set obj"
  by (auto simp: assign_def AList.dom_update)

lemma length_assign: "length (assign obj key v) \<le> Suc (length obj)"
proof -
  have "length (AList.update key v obj) \<le> Suc (length obj)"
    by (induction obj) auto
  then show ?thesis by (simp add: assign_def)
qed

lemma map_of_assign:
  "k \<noteq> ''__proto__'' \<Longrightarrow> map_of (assign obj key v) k = (if k = key then Some v else map_of obj k)"
  by (auto simp: assign_def AList.update_conv')

lemma pick_keys_subset:
  "fst ` set (foldl (\<lambda>copy k. case map_of obj k of Some v \<Rightarrow> assign copy k v | None \<Rightarrow> copy) acc ks)
     \<subseteq> fst ` set acc \<union> {k \<in> set ks. map_of obj k \<noteq> None}"
proof (induction ks arbitrary: acc)
  case Nil
  show ?case by simp
next
  case (Cons k ks)
  show ?case
  proof (cases "map_of obj k")
    case None
    then show ?thesis using Cons.IH [of acc] by auto
  next
    case (Some v)
    then show ?thesis
      using Cons.IH [of "assign acc k v"] keys_assign [of acc k v] by auto
  qed
qed

lemma pick_length:
  "length (foldl (\<lambda>copy k. case map_of obj k of Some v \<Rightarrow> assign copy k v | None \<Rightarrow> copy) acc ks)
     \<le> length acc + length (filter (\<lambda>k. map_of obj k \<noteq> None) ks)"
proof (induction ks arbitrary: acc)
  case Nil
  show ?case by simp
next
  case (Cons k ks)
  show ?case
  proof (cases "map_of obj k")
    case None
    then show ?thesis using Cons.IH [of acc] by simp
  next
    case (Some v)
    then show ?thesis
      using Cons.IH [of "assign acc k v"] length_assign [of acc k v] by simp
  qed
qed

lemma missing_fold:
  "k \<noteq> ''__proto__'' \<Longrightarrow>
   map_of (foldl (\<lambda>acc missingKey.
                    case gm missingKey of
                      Some fieldDef \<Rightarrow> assign acc missingKey (OldFieldDefinition fieldDef)
                    | None \<Rightarrow> acc) acc ks) k
     = (if k \<in> set ks then (case gm k of Some fd \<Rightarrow> Some (OldFieldDefinition fd) | None \<Rightarrow> map_of acc k)
        else map_of acc k)"
  by (induction ks arbitrary: acc) (auto simp: map_of_assign split: option.splits)

text \<open>For every modified key other than \<open>__proto__\<close> that has no entry in the values mapping
  and is declared in the chain, \<open>getModified(true)\<close> holds the FieldDefinition object found
  by the walk.\<close>

lemma getModified_old_missing:
  assumes k: "k \<in> set (keys (doc_modified this))"
    and absent: "map_of (doc_values this) k = None"
    and declared: "getModified_missing (doc_constructor this) k = Some fieldDef"
    and name: "k \<noteq> ''__proto__''"
  shows "map_of (getModified this True) k = Some (OldFieldDefinition fieldDef)"
proof -
  let ?mk = "keys (doc_modified this)"
  let ?old = "map (\<lambda>kv. (fst kv, OldValue (snd kv))) (pick (doc_values this) ?mk)"
  have keys_old: "keys ?old = keys (pick (doc_values this) ?mk)"
    by (simp add: keys_def comp_def)
  have sub: "set (keys ?old) \<subseteq> {k \<in> set ?mk. map_of (doc_values this) k \<noteq> None}"
    unfolding keys_old using pick_keys_subset [of "doc_values this" "[]" ?mk]
    by (auto simp: pick_def keys_def)
  then have notin: "k \<notin> set (keys ?old)"
    using absent by auto
  have "length (filter (\<lambda>k. map_of (doc_values this) k \<noteq> None) ?mk) < length ?mk"
    using k absent by (intro length_filter_less [of k]) auto
  then have shorter: "length ?mk \<noteq> length (keys ?old)"
    unfolding keys_old using pick_length [of "doc_values this" "[]" ?mk]
    by (simp add: pick_def keys_def)
  have miss: "k \<in> set (difference ?mk (keys ?old))"
    using k notin by (simp add: difference_def)
  show ?thesis
    using shorter miss declared
    by (simp add: getModified_def Let_def missing_fold [OF name])
qed

text \<open>
  C5, at a concrete document. \<open>legs\<close> has the default 4 and no entry in the values
  mapping; after \<open>set('legs', 2)\<close>, \<open>getModified(true)\<close> holds under \<open>legs\<close> the
  FieldDefinition object that \<open>getField\<close> returned, not the default 4 that \<open>get\<close> resolved
  before the change.
\<close>

theorem getModified_old_holds_definition:
  "set_field cast_canonical (initInstance Animal None) ''legs'' (JNum 2)
     = Inr ((initInstance Animal None)\<lparr>doc_modified := [(''legs'', JNum 2)]\<rparr>)
   \<and> get (initInstance Animal None) ''legs'' = JNum 4
   \<and> getModified ((initInstance Animal None)\<lparr>doc_modified := [(''legs'', JNum 2)]\<rparr>) True
       = [(''legs'', OldFieldDefinition \<lparr>fd_type = None, fd_default = JNum 4\<rparr>)]
   \<and> getModified ((initInstance Animal None)\<lparr>doc_modified := [(''legs'', JNum 2)]\<rparr>) True
       \<noteq> [(''legs'', OldValue (JNum 4))]"
  by (simp add: set_field_def get_def has_def initInstance_def prop_of_def Animal_eq getField_def
      getModified_def keys_def pick_def difference_def assign_update)

subsection \<open>initSchema\<close>

lemma map_of_addFields_kept:
  "has fs k \<Longrightarrow> map_of (addFields fs defs) k = map_of fs k"
  by (induction fs defs rule: addFields.induct)
    (auto simp: addField_def has_def AList.update_conv' AList.dom_update)

lemma distinct_addFields:
  "distinct (map fst fs) \<Longrightarrow> distinct (map fst (addFields fs defs))"
  by (induction fs defs rule: addFields.induct) (auto simp: addField_def AList.distinct_update)

lemma once_filter:
  "distinct (map fst fs) \<Longrightarrow> map_of fs k = Some v \<Longrightarrow> length (filter (\<lambda>kv. fst kv = k) fs) = 1"
  by (induction fs) (auto simp: filter_empty_conv image_iff dest: map_of_SomeD split: if_splits)

lemma initSchema_own:
  "distinct (map fst (own_fields (initSchema name parent defs)))"
  "map_of (own_fields (initSchema name parent defs)) ''_id''
     = Some \<lparr>fd_type = Some TString, fd_default = JNull\<rparr>"
  "parent \<noteq> None \<Longrightarrow>
   map_of (own_fields (initSchema name parent defs)) ''_type''
     = Some \<lparr>fd_type = Some TString, fd_default = JStr name\<rparr>"
  by (simp_all add: initSchema_def Let_def distinct_addFields map_of_addFields_kept
      addField_def has_def del: addFields.simps)

lemma distinct_merge:
  "distinct (map fst base) \<Longrightarrow>
   distinct (map fst (foldl (\<lambda>acc kd. AList.update (fst kd) (snd kd) acc) base fs))"
  by (induction fs arbitrary: base) (simp_all add: AList.distinct_update)

lemma map_of_merge_other:
  "k \<notin> fst ` set fs \<Longrightarrow>
   map_of (foldl (\<lambda>acc kd. AList.update (fst kd) (snd kd) acc) base fs) k = map_of base k"
  by (induction fs arbitrary: base) (auto simp: AList.update_conv')

lemma map_of_merge_own:
  "distinct (map fst fs) \<Longrightarrow> map_of fs k = Some v \<Longrightarrow>
   map_of (foldl (\<lambda>acc kd. AList.update (fst kd) (snd kd) acc) base fs) k = Some v"
proof (induction fs arbitrary: base)
  case Nil
  then show ?case by simp
next
  case (Cons kd fs)
  show ?case
  proof (cases "fst kd = k")
    case True
    with Cons.prems have "k \<notin> fst ` set fs" and "snd kd = v"
      by (auto simp: image_iff)
    then show ?thesis
      using True map_of_merge_other [of k fs "AList.update (fst kd) (snd kd) base"]
      by (simp add: AList.update_conv')
  next
    case False
    with Cons.prems Cons.IH [of "AList.update (fst kd) (snd kd) base"] show ?thesis
      by (cases kd) (simp split: if_splits)
  qed
qed

lemma merged_initSchema:
  "merged_fields (initSchema name parent defs) =
     (case parent of
        None \<Rightarrow> own_fields (initSchema name parent defs)
      | Some p \<Rightarrow> foldl (\<lambda>acc kd. AList.update (fst kd) (snd kd) acc) (merged_fields p)
                    (own_fields (initSchema name parent defs)))"
  by (cases parent) (simp_all add: initSchema_def Let_def del: addFields.simps)

lemma distinct_merged_chain:
  "distinct (map fst (merged_fields (initSchema name (compose_chain ancestors) defs)))"
proof (induction ancestors arbitrary: name defs)
  case Nil
  show ?case by (simp add: merged_initSchema initSchema_own(1))
next
  case (Cons decl ancestors)
  show ?case
    by (simp add: merged_initSchema [of name "Some p" for p] distinct_merge Cons.IH)
qed

lemma chain_initSchema:
  "class_chain (initSchema name parent defs) =
     initSchema name parent defs # (case parent of Some p \<Rightarrow> class_chain p | None \<Rightarrow> [])"
  by (simp add: initSchema_def Let_def del: addFields.simps)

lemma chain_holds_id:
  "k \<in> set (class_chain (initSchema name (compose_chain ancestors) defs)) \<Longrightarrow>
   getField k ''_id'' = Some \<lparr>fd_type = Some TString, fd_default = JNull\<rparr>"
proof (induction ancestors arbitrary: name defs)
  case Nil
  then show ?case by (simp add: chain_initSchema getField_def initSchema_own(2))
next
  case (Cons decl ancestors)
  from Cons.prems Cons.IH [of "fst decl" "snd decl"] show ?case
    by (auto simp: chain_initSchema [of name "Some p" for p] getField_def initSchema_own(2))
qed

lemma chain_length:
  "length (class_chain (initSchema name (compose_chain ancestors) defs)) = Suc (length ancestors)"
  by (induction ancestors arbitrary: name defs)
    (simp_all add: chain_initSchema [of _ None] chain_initSchema [of _ "Some p" for p])

text \<open>
  C8. Take a class composed by \<open>initSchema\<close> over any number of ancestors, each composed
  by \<open>initSchema\<close>, whatever the definitions declare. Its own fields hold \<open>_id\<close> once, of
  type String with default null, and so do the own fields of every class of its chain,
  which has one class more than there are ancestors. The merged Schema, in which the
  child replaces by key, holds \<open>_id\<close> exactly once, of type String with default null.
  With a parent, the own fields and the merged Schema hold \<open>_type\<close> once, of type String
  with the class's own name as default.
\<close>

theorem initSchema_mandatory_fields:
  "length (filter (\<lambda>kv. fst kv = ''_id'')
       (merged_fields (initSchema name (compose_chain ancestors) defs))) = 1
   \<and> map_of (merged_fields (initSchema name (compose_chain ancestors) defs)) ''_id''
       = Some \<lparr>fd_type = Some TString, fd_default = JNull\<rparr>
   \<and> length (filter (\<lambda>kv. fst kv = ''_id'')
       (own_fields (initSchema name (compose_chain ancestors) defs))) = 1
   \<and> (\<forall>k \<in> set (class_chain (initSchema name (compose_chain ancestors) defs)).
        getField k ''_id'' = Some \<lparr>fd_type = Some TString, fd_default = JNull\<rparr>)
   \<and> length (class_chain (initSchema name (compose_chain ancestors) defs)) = Suc (length ancestors)
   \<and> (ancestors \<noteq> [] \<longrightarrow>
        getField (initSchema name (compose_chain ancestors) defs) ''_type''
          = Some \<lparr>fd_type = Some TString, fd_default = JStr name\<rparr>
        \<and> map_of (merged_fields (initSchema name (compose_chain ancestors) defs)) ''_type''
          = Some \<lparr>fd_type = Some TString, fd_default = JStr name\<rparr>
        \<and> length (filter (\<lambda>kv. fst kv = ''_type'')
            (merged_fields (initSchema name (compose_chain ancestors) defs))) = 1)"
proof -
  let ?c = "initSchema name (compose_chain ancestors) defs"
  let ?idDef = "\<lparr>fd_type = Some TString, fd_default = JNull\<rparr>"
  let ?tyDef = "\<lparr>fd_type = Some TString, fd_default = JStr name\<rparr>"
  note own = initSchema_own [where name = name and parent = "compose_chain ancestors" and defs = defs]
  have parent: "compose_chain ancestors \<noteq> None" if "ancestors \<noteq> []"
    using that by (cases ancestors) simp_all
  have merged: "map_of (merged_fields ?c) k = Some v" if "map_of (own_fields ?c) k = Some v" for k v
    using that map_of_merge_own [OF own(1) that]
    by (cases "compose_chain ancestors") (simp_all add: merged_initSchema)
  have m_id: "map_of (merged_fields ?c) ''_id'' = Some ?idDef"
    using merged [OF own(2)] .
  have m_ty: "map_of (merged_fields ?c) ''_type'' = Some ?tyDef" if "ancestors \<noteq> []"
    using merged [OF own(3) [OF parent [OF that]]] .
  have 1: "length (filter (\<lambda>kv. fst kv = ''_id'') (merged_fields ?c)) = 1"
    using once_filter [OF distinct_merged_chain m_id] .
  have 3: "length (filter (\<lambda>kv. fst kv = ''_id'') (own_fields ?c)) = 1"
    using once_filter [OF own(1) own(2)] .
  have 4: "\<forall>k \<in> set (class_chain ?c). getField k ''_id'' = Some ?idDef"
    using chain_holds_id by blast
  have 6: "getField ?c ''_type'' = Some ?tyDef" if "ancestors \<noteq> []"
    using own(3) [OF parent [OF that]] by (simp add: getField_def)
  have 7: "length (filter (\<lambda>kv. fst kv = ''_type'') (merged_fields ?c)) = 1" if "ancestors \<noteq> []"
    using once_filter [OF distinct_merged_chain m_ty [OF that]] .
  show ?thesis
    using 1 m_id 3 4 chain_length [of name ancestors defs] 6 m_ty 7 by blast
qed

theorem initSchema_mandatory_fields_witness:
  "length (filter (\<lambda>kv. fst kv = ''_id'') (merged_fields Dog)) = 1
   \<and> map_of (merged_fields Dog) ''_id'' = Some \<lparr>fd_type = Some TString, fd_default = JNull\<rparr>
   \<and> length (filter (\<lambda>kv. fst kv = ''_id'') (own_fields Dog)) = 1
   \<and> getField Dog ''_id'' = Some \<lparr>fd_type = Some TString, fd_default = JNull\<rparr>
   \<and> getField Animal ''_id'' = Some \<lparr>fd_type = Some TString, fd_default = JNull\<rparr>
   \<and> length (class_chain Dog) = 2
   \<and> getField Dog ''_type'' = Some \<lparr>fd_type = Some TString, fd_default = JStr ''Dog''\<rparr>
   \<and> map_of (merged_fields Dog) ''_type'' = Some \<lparr>fd_type = Some TString, fd_default = JStr ''Dog''\<rparr>
   \<and> length (filter (\<lambda>kv. fst kv = ''_type'') (merged_fields Dog)) = 1"
proof -
  have dog: "initSchema ''Dog''
      (compose_chain [(''Animal'',
         [(''name'', \<lparr>fd_type = Some TString, fd_default = JStr ''anonymous''\<rparr>),
          (''legs'', \<lparr>fd_type = None, fd_default = JNum 4\<rparr>)])])
      [(''breed'', \<lparr>fd_type = Some TString, fd_default = JNull\<rparr>)] = Dog"
    by (simp add: Dog_def Animal_def)
  have chain: "class_chain Dog = [Dog, Animal]"
    by (simp add: Dog_eq Animal_eq)
  show ?thesis
    using initSchema_mandatory_fields [of "''Dog''"
        "[(''Animal'',
           [(''name'', \<lparr>fd_type = Some TString, fd_default = JStr ''anonymous''\<rparr>),
            (''legs'', \<lparr>fd_type = None, fd_default = JNum 4\<rparr>)])]"
        "[(''breed'', \<lparr>fd_type = Some TString, fd_default = JNull\<rparr>)]"]
    by (simp only: dog chain) simp
qed

subsection \<open>clone\<close>







section \<open>Properties of the validation walk\<close>

subsection \<open>The collected errors are a prefix of what follows\<close>

lemma catch_call_simps [simp]:
  "catch_call stop None errors = None"
  "catch_call stop (Some r) errors = Some (catchValidationError stop r errors)"
  by (simp_all add: catch_call_def)

lemma catch_shift:
  "catchValidationError stop r (acc @ errors)
     = map_outcome ((@) acc) (catchValidationError stop r errors)"
  by (induction stop r errors rule: catchValidationError.induct) simp_all

lemma catch_call_shift:
  "catch_call stop r (acc @ errors) = map_option (map_outcome ((@) acc)) (catch_call stop r errors)"
  by (simp add: catch_call_def catch_shift split: option.splits)

lemma validate_each_shift:
  "validate_each call stop xs (acc @ errors)
     = map_option (map_outcome ((@) acc)) (validate_each call stop xs errors)"
proof (induction xs arbitrary: errors)
  case Nil
  show ?case by simp
next
  case (Cons x xs)
  show ?case
  proof (cases "catch_call stop (call x) errors")
    case None
    then show ?thesis by (simp add: catch_call_shift)
  next
    case (Some r)
    then show ?thesis
      using Cons.IH by (cases r) (simp_all add: catch_call_shift)
  qed
qed

lemma validate_nested_shift:
  "validate_nested rec e pre stop fld v (acc @ errors)
     = map_option (map_outcome ((@) acc)) (validate_nested rec e pre stop fld v errors)"
  by (simp add: validate_nested_def validate_each_shift catch_call_shift
      split: field_kind.splits vval.splits)

lemma validate_field_shift:
  "validate_field rec e doc pre stop sim name (acc @ errors)
     = map_option (map_outcome ((@) acc)) (validate_field rec e doc pre stop sim name errors)"
proof (cases "isNestedFieldName e name")
  case True
  then show ?thesis by (simp add: validate_field_def validate_each_shift)
next
  case False
  show ?thesis
  proof (cases "classGetField e (className doc) name")
    case None
    then show ?thesis using False by (simp add: validate_field_def)
  next
    case (Some fld)
    show ?thesis
    proof (cases "catchValidationError stop
                    (validate_value e doc fld pre name (docGet e doc name)) errors")
      case (Returns errors')
      then show ?thesis
        using False Some by (simp add: validate_field_def catch_shift validate_nested_shift)
    next
      case (Throws ex)
      then show ?thesis
        using False Some by (simp add: validate_field_def catch_shift)
    qed
  qed
qed

lemma validate_fields_shift:
  "validate_fields rec e doc pre stop sim names (acc @ errors)
     = map_option (map_outcome ((@) acc)) (validate_fields rec e doc pre stop sim names errors)"
proof (induction names arbitrary: errors)
  case Nil
  show ?case by simp
next
  case (Cons name names)
  show ?case
  proof (cases "validate_field rec e doc pre stop sim name errors")
    case None
    then show ?thesis by (simp add: validate_field_shift)
  next
    case (Some r)
    then show ?thesis
      using Cons.IH by (cases r) (simp_all add: validate_field_shift)
  qed
qed

lemma validate_fields_append:
  "validate_fields rec e doc pre stop sim (xs @ ys) errors =
     (case validate_fields rec e doc pre stop sim xs errors of
        None \<Rightarrow> None
      | Some (Throws ex) \<Rightarrow> Some (Throws ex)
      | Some (Returns errors') \<Rightarrow> validate_fields rec e doc pre stop sim ys errors')"
  by (induction xs arbitrary: errors) (simp_all split: option.splits outcome.splits)

subsection \<open>Stop mode collects nothing; collect mode throws no ValidationError on\<close>

lemma catch_stop_returns:
  "catchValidationError True r errors = Returns errors' \<Longrightarrow> errors' = errors"
  by (cases r; cases "case r of Throws x \<Rightarrow> x") auto

lemma catch_call_stop_returns:
  "catch_call True r errors = Some (Returns errors') \<Longrightarrow> errors' = errors"
  by (auto simp: catch_call_def split: option.splits dest: catch_stop_returns)

lemma validate_each_stop_returns:
  "validate_each call True xs errors = Some (Returns errors') \<Longrightarrow> errors' = errors"
proof (induction xs arbitrary: errors)
  case Nil
  then show ?case by simp
next
  case (Cons x xs)
  then show ?case
    by (auto split: option.splits outcome.splits dest: catch_call_stop_returns)
qed

lemma validate_nested_stop_returns:
  "validate_nested rec e pre True fld v errors = Some (Returns errors') \<Longrightarrow> errors' = errors"
  by (auto simp: validate_nested_def simp del: validate_each.simps
      split: if_splits field_kind.splits vval.splits
      dest: validate_each_stop_returns catch_call_stop_returns)

lemma validate_field_stop_returns:
  "validate_field rec e doc pre True sim name errors = Some (Returns errors') \<Longrightarrow> errors' = errors"
  by (auto simp: validate_field_def
      split: option.splits if_splits outcome.splits
      dest: catch_stop_returns validate_each_stop_returns validate_nested_stop_returns)

lemma validate_fields_stop_returns:
  "validate_fields rec e doc pre True sim names errors = Some (Returns errors') \<Longrightarrow> errors' = errors"
proof (induction names arbitrary: errors)
  case Nil
  then show ?case by simp
next
  case (Cons name names)
  then show ?case
    by (auto split: option.splits outcome.splits dest: validate_field_stop_returns)
qed

lemma catch_collect_throws:
  "catchValidationError False r errors = Throws ex \<Longrightarrow> \<exists>msg. ex = OtherError msg"
  by (cases r; cases "case r of Throws x \<Rightarrow> x") auto

lemma catch_call_collect_throws:
  "catch_call False r errors = Some (Throws ex) \<Longrightarrow> \<exists>msg. ex = OtherError msg"
  by (auto simp: catch_call_def split: option.splits dest: catch_collect_throws)

lemma validate_each_collect_throws:
  "validate_each call False xs errors = Some (Throws ex) \<Longrightarrow> \<exists>msg. ex = OtherError msg"
proof (induction xs arbitrary: errors)
  case Nil
  then show ?case by simp
next
  case (Cons x xs)
  then show ?case
    by (auto split: option.splits outcome.splits dest: catch_call_collect_throws)
qed

lemma validate_nested_collect_throws:
  "validate_nested rec e pre False fld v errors = Some (Throws ex) \<Longrightarrow> \<exists>msg. ex = OtherError msg"
  by (auto simp: validate_nested_def simp del: validate_each.simps
      split: if_splits field_kind.splits vval.splits
      dest: validate_each_collect_throws catch_call_collect_throws)

lemma validate_field_collect_throws:
  "validate_field rec e doc pre False sim name errors = Some (Throws ex) \<Longrightarrow> \<exists>msg. ex = OtherError msg"
  by (auto simp: validate_field_def
      split: option.splits if_splits outcome.splits
      dest: catch_collect_throws validate_each_collect_throws validate_nested_collect_throws)

lemma validate_fields_collect_throws:
  "validate_fields rec e doc pre False sim names errors = Some (Throws ex) \<Longrightarrow> \<exists>msg. ex = OtherError msg"
proof (induction names arbitrary: errors)
  case Nil
  then show ?case by simp
next
  case (Cons name names)
  then show ?case
    by (auto split: option.splits outcome.splits dest: validate_field_collect_throws)
qed

subsection \<open>The final throw\<close>

lemma throw_collected_inject:
  "throw_collected xs = throw_collected ys \<Longrightarrow> xs = ys"
  by (auto simp: throw_collected_def split: if_splits)

lemma throw_collected_Returns: "throw_collected xs = Returns u \<longleftrightarrow> xs = []"
  by (simp add: throw_collected_def)

lemma throw_collected_Nil: "throw_collected [] = Returns ()"
  by (simp add: throw_collected_def)

lemma catch_throw_collected:
  "catchValidationError False (throw_collected ds) errors = Returns (errors @ ds)"
  by (cases ds) (simp_all add: throw_collected_def)

subsection \<open>One call of documentValidate\<close>

lemma className_cast_document [simp]: "className (cast_document e doc) = className doc"
  by (simp add: cast_document_def)

lemma documentValidate_Suc_any:
  "documentValidate (Suc n) e doc fieldNames pre stop sim =
     (if \<not> sim \<and> \<not> isServer e then Some (Returns ())
      else case validate_fields (documentValidate n e) e (cast_document e doc) pre stop sim
                  (case fieldNames of None \<Rightarrow> getValidationOrder e (className doc) | Some fs \<Rightarrow> fs) [] of
             None \<Rightarrow> None
           | Some (Throws ex) \<Rightarrow> Some (Throws ex)
           | Some (Returns errors) \<Rightarrow> Some (throw_collected errors))"
  by (simp add: Let_def)

lemma documentValidate_Suc:
  "documentValidate (Suc n) e doc (Some names) pre stop sim =
     (if \<not> sim \<and> \<not> isServer e then Some (Returns ())
      else case validate_fields (documentValidate n e) e (cast_document e doc)
                  pre stop sim names [] of
             None \<Rightarrow> None
           | Some (Throws ex) \<Rightarrow> Some (Throws ex)
           | Some (Returns errors) \<Rightarrow> Some (throw_collected errors))"
  by (simp add: Let_def)

lemma documentValidate_single:
  assumes "sim \<or> isServer e"
  shows "documentValidate (Suc n) e doc (Some [name]) pre stop sim =
     (case validate_field (documentValidate n e) e (cast_document e doc) pre stop sim name [] of
        None \<Rightarrow> None
      | Some (Throws ex) \<Rightarrow> Some (Throws ex)
      | Some (Returns errors) \<Rightarrow> Some (throw_collected errors))"
  using assms by (auto simp: documentValidate_Suc_any split: option.splits outcome.splits)

lemma stop_walk_returns:
  assumes "documentValidate (Suc n) e doc (Some names) pre True sim = Some (Returns ())"
    and "sim \<or> isServer e"
  shows "validate_fields (documentValidate n e) e (cast_document e doc)
           pre True sim names [] = Some (Returns [])"
  using assms
  by (auto simp: documentValidate_Suc throw_collected_Returns
      split: option.splits outcome.splits if_splits)

lemma stop_walk_throws:
  assumes "documentValidate (Suc n) e doc (Some names) pre True sim = Some (Throws ex)"
  shows "(sim \<or> isServer e)
         \<and> validate_fields (documentValidate n e) e (cast_document e doc)
           pre True sim names [] = Some (Throws ex)"
  using assms
  by (auto simp: documentValidate_Suc throw_collected_def
      split: option.splits outcome.splits if_splits dest: validate_fields_stop_returns)

lemma collect_walk:
  assumes "documentValidate (Suc n) e doc (Some names) pre False sim = Some (throw_collected es)"
    and "sim \<or> isServer e"
  shows "validate_fields (documentValidate n e) e (cast_document e doc)
           pre False sim names [] = Some (Returns es)"
proof -
  let ?w = "validate_fields (documentValidate n e) e (cast_document e doc)
              pre False sim names []"
  from assms obtain r where r: "?w = Some r"
    by (auto simp: documentValidate_Suc split: option.splits if_splits)
  show ?thesis
  proof (cases r)
    case (Returns errors)
    with assms r have "throw_collected errors = throw_collected es"
      by (auto simp: documentValidate_Suc)
    then show ?thesis using r Returns by (simp add: throw_collected_inject)
  next
    case (Throws ex)
    with r obtain msg where "ex = OtherError msg"
      using validate_fields_collect_throws by blast
    with assms r Throws show ?thesis
      by (auto simp: documentValidate_Suc throw_collected_def split: if_splits)
  qed
qed

lemma collect_fields_concat:
  assumes "\<forall>name\<in>set names. validate_fields rec e doc pre False sim [name] [] = Some (Returns (es name))"
  shows "validate_fields rec e doc pre False sim names acc = Some (Returns (acc @ concat (map es names)))"
  using assms
proof (induction names arbitrary: acc)
  case Nil
  show ?case by simp
next
  case (Cons name names)
  from Cons.prems have one: "validate_field rec e doc pre False sim name [] = Some (Returns (es name))"
    by (auto split: option.splits outcome.splits)
  have "validate_field rec e doc pre False sim name (acc @ []) = Some (Returns (acc @ es name))"
    unfolding validate_field_shift one by simp
  then show ?case using Cons.IH [of "acc @ es name"] Cons.prems by simp
qed

lemma collect_result_form:
  assumes "documentValidate k e d fs p False s = Some r"
  shows "(\<exists>errs. r = throw_collected errs) \<or> (\<exists>msg. r = Throws (OtherError msg))"
proof (cases k)
  case 0
  with assms show ?thesis by simp
next
  case (Suc n)
  show ?thesis
  proof (cases "\<not> s \<and> \<not> isServer e")
    case True
    with assms Suc have "r = throw_collected []"
      by (simp add: throw_collected_Nil)
    then show ?thesis by blast
  next
    case False
    let ?w = "validate_fields (documentValidate n e) e (cast_document e d) p False s
                (case fs of None \<Rightarrow> getValidationOrder e (className d) | Some fs \<Rightarrow> fs) []"
    from assms Suc False obtain w where w: "?w = Some w"
      by (auto simp: documentValidate_Suc_any split: option.splits)
    show ?thesis
    proof (cases w)
      case (Returns errors)
      with assms Suc False w have "r = throw_collected errors"
        by (auto simp: documentValidate_Suc_any)
      then show ?thesis by blast
    next
      case (Throws ex)
      with w obtain msg where "ex = OtherError msg"
        using validate_fields_collect_throws by blast
      with assms Suc False w Throws have "r = Throws (OtherError msg)"
        by (auto simp: documentValidate_Suc_any)
      then show ?thesis by blast
    qed
  qed
qed

lemma relay_nested:
  assumes "stop \<or> (\<exists>errs. r = throw_collected errs) \<or> (\<exists>msg. r = Throws (OtherError msg))"
  shows "(case catchValidationError stop r [] of
            Throws ex \<Rightarrow> Some (Throws ex)
          | Returns errors \<Rightarrow> Some (throw_collected errors)) = Some r"
proof (cases stop)
  case True
  then show ?thesis
    by (cases r; cases "case r of Throws x \<Rightarrow> x") (auto simp: throw_collected_def)
next
  case False
  with assms consider errs where "r = throw_collected errs" | msg where "r = Throws (OtherError msg)"
    by blast
  then show ?thesis
  proof cases
    case 1
    then show ?thesis using False by (simp add: catch_throw_collected)
  next
    case 2
    then show ?thesis by simp
  qed
qed

subsection \<open>A deeper bound does not change a result\<close>

lemma catch_call_mono:
  assumes "\<And>x. r1 = Some x \<Longrightarrow> r2 = Some x"
    and "catch_call stop r1 errors = Some w"
  shows "catch_call stop r2 errors = Some w"
  using assms by (cases r1) (simp_all add: catch_call_def)

lemma validate_each_mono:
  assumes "\<And>x r. call1 x = Some r \<Longrightarrow> call2 x = Some r"
    and "validate_each call1 stop xs errors = Some r"
  shows "validate_each call2 stop xs errors = Some r"
  using assms(2)
proof (induction xs arbitrary: errors)
  case Nil
  then show ?case by simp
next
  case (Cons x xs)
  from Cons.prems obtain w where w1: "catch_call stop (call1 x) errors = Some w"
    by (auto split: option.splits)
  have w2: "catch_call stop (call2 x) errors = Some w"
    using catch_call_mono [OF _ w1] assms(1) by blast
  show ?case
  proof (cases w)
    case (Returns errors')
    with Cons.prems w1 have "validate_each call1 stop xs errors' = Some r" by simp
    from Cons.IH [OF this] show ?thesis using w2 Returns by simp
  next
    case (Throws ex)
    with Cons.prems w1 w2 show ?thesis by auto
  qed
qed

lemma validate_nested_mono:
  assumes "\<And>d fs p s1 s2 r. rec1 d fs p s1 s2 = Some r \<Longrightarrow> rec2 d fs p s1 s2 = Some r"
    and "validate_nested rec1 e pre stop fld v errors = Some r"
  shows "validate_nested rec2 e pre stop fld v errors = Some r"
proof (cases "f_kind fld")
  case ObjectField
  show ?thesis
  proof (cases v)
    case (VInst d)
    with assms(2) ObjectField show ?thesis
      by (auto simp: validate_nested_def intro: catch_call_mono [rotated] assms(1))
  qed (use assms(2) ObjectField in \<open>simp_all add: validate_nested_def\<close>)
next
  case (ListField c)
  with assms(2) show ?thesis
    by (auto simp: validate_nested_def simp del: validate_each.simps split: if_splits
        intro: validate_each_mono [rotated] assms(1))
next
  case ScalarField
  with assms(2) show ?thesis by (simp add: validate_nested_def)
qed

lemma validate_field_mono:
  assumes "\<And>d fs p s1 s2 r. rec1 d fs p s1 s2 = Some r \<Longrightarrow> rec2 d fs p s1 s2 = Some r"
    and "validate_field rec1 e doc pre stop sim name errors = Some r"
  shows "validate_field rec2 e doc pre stop sim name errors = Some r"
proof (cases "isNestedFieldName e name")
  case True
  with assms(2) show ?thesis
    by (auto simp: validate_field_def simp del: validate_each.simps
        intro: validate_each_mono [rotated] assms(1))
next
  case False
  with assms(2) show ?thesis
    by (auto simp: validate_field_def split: option.splits if_splits outcome.splits
        intro: validate_nested_mono [OF assms(1)])
qed

lemma validate_fields_mono:
  assumes "\<And>d fs p s1 s2 r. rec1 d fs p s1 s2 = Some r \<Longrightarrow> rec2 d fs p s1 s2 = Some r"
    and "validate_fields rec1 e doc pre stop sim names errors = Some r"
  shows "validate_fields rec2 e doc pre stop sim names errors = Some r"
  using assms(2)
proof (induction names arbitrary: errors)
  case Nil
  then show ?case by simp
next
  case (Cons name names)
  from Cons.prems obtain r1 where r1: "validate_field rec1 e doc pre stop sim name errors = Some r1"
    by (auto split: option.splits)
  from validate_field_mono [OF assms(1) this]
  have r2: "validate_field rec2 e doc pre stop sim name errors = Some r1" by simp
  show ?case
  proof (cases r1)
    case (Returns errors')
    with Cons.prems r1 have "validate_fields rec1 e doc pre stop sim names errors' = Some r" by simp
    from Cons.IH [OF this] show ?thesis using r2 Returns by simp
  next
    case (Throws ex)
    with Cons.prems r1 r2 show ?thesis by auto
  qed
qed

lemma documentValidate_Suc_mono:
  "documentValidate n e doc fieldNames pre stop sim = Some r \<Longrightarrow>
   documentValidate (Suc n) e doc fieldNames pre stop sim = Some r"
proof (induction n arbitrary: doc fieldNames pre stop sim r)
  case 0
  then show ?case by simp
next
  case (Suc n)
  show ?case
  proof (cases "\<not> sim \<and> \<not> isServer e")
    case True
    with Suc.prems show ?thesis by simp
  next
    case False
    let ?fs = "case fieldNames of None \<Rightarrow> getValidationOrder e (className doc) | Some fs \<Rightarrow> fs"
    from Suc.prems False obtain w where
      w: "validate_fields (documentValidate n e) e (cast_document e doc) pre stop sim ?fs [] = Some w"
      by (auto simp: documentValidate_Suc_any simp del: documentValidate.simps split: option.splits)
    have w': "validate_fields (documentValidate (Suc n) e) e (cast_document e doc) pre stop sim ?fs []
                = Some w"
      using validate_fields_mono [OF _ w, of "documentValidate (Suc n) e"] Suc.IH by blast
    have "(case w of Throws ex \<Rightarrow> Some (Throws ex)
           | Returns errors \<Rightarrow> Some (throw_collected errors)) = Some r"
      using Suc.prems False w
      by (simp add: documentValidate_Suc_any del: documentValidate.simps)
    with False w' show ?thesis
      by (auto simp: documentValidate_Suc_any [of "Suc n"] simp del: documentValidate.simps)
  qed
qed

lemma documentValidate_deeper:
  "documentValidate n e doc fieldNames pre stop sim = Some r \<Longrightarrow>
   documentValidate (n + k) e doc fieldNames pre stop sim = Some r"
  by (induction k) (simp_all add: documentValidate_Suc_mono del: documentValidate.simps)

lemmas ex_simps = example_env_def user_fields_def string_field_def nested_field_def
  string_type_def not_a_string_def lookup_prop_def validate_field_def validate_value_def
  validate_nested_def throw_collected_def cast_document_def

subsection \<open>The two error modes\<close>

text \<open>
  C1. With \<open>stopOnFirstError\<close> true, the walk throws the error of the first failing field
  and the fields after it play no part: if the fields before \<open>name\<close> validate and \<open>name\<close>
  alone throws \<open>ex\<close>, then the whole list throws \<open>ex\<close>, whatever follows. With
  \<open>stopOnFirstError\<close> false every field is walked: when each field alone ends with the errors
  \<open>es name\<close> (thrown as one ValidationError, or a plain return when there are none), the
  whole list ends with their concatenation in field order, thrown once at the end, or a
  plain return when it is empty.
\<close>

theorem documentValidate_error_modes:
  "(documentValidate (Suc n) e doc (Some before) pre True sim = Some (Returns ()) \<longrightarrow>
    documentValidate (Suc n) e doc (Some [name]) pre True sim = Some (Throws ex) \<longrightarrow>
    documentValidate (Suc n) e doc (Some (before @ name # after)) pre True sim = Some (Throws ex))
   \<and> ((\<forall>name\<in>set names.
          documentValidate (Suc n) e doc (Some [name]) pre False sim = Some (throw_collected (es name))) \<longrightarrow>
        documentValidate (Suc n) e doc (Some names) pre False sim
          = Some (throw_collected (concat (map es names))))"
proof (intro conjI impI)
  let ?doc = "cast_document e doc"
  assume ok: "documentValidate (Suc n) e doc (Some before) pre True sim = Some (Returns ())"
    and bad: "documentValidate (Suc n) e doc (Some [name]) pre True sim = Some (Throws ex)"
  from stop_walk_throws [OF bad]
  have run: "sim \<or> isServer e"
    and one: "validate_fields (documentValidate n e) e ?doc pre True sim [name] [] = Some (Throws ex)"
    by simp_all
  from one have fld: "validate_field (documentValidate n e) e ?doc pre True sim name [] = Some (Throws ex)"
    by (auto split: option.splits outcome.splits)
  have "validate_fields (documentValidate n e) e ?doc pre True sim (before @ name # after) []
          = Some (Throws ex)"
    using stop_walk_returns [OF ok run] fld by (simp add: validate_fields_append)
  then show "documentValidate (Suc n) e doc (Some (before @ name # after)) pre True sim = Some (Throws ex)"
    using run by (auto simp: documentValidate_Suc)
next
  let ?doc = "cast_document e doc"
  assume each: "\<forall>name\<in>set names.
     documentValidate (Suc n) e doc (Some [name]) pre False sim = Some (throw_collected (es name))"
  show "documentValidate (Suc n) e doc (Some names) pre False sim
          = Some (throw_collected (concat (map es names)))"
  proof (cases "sim \<or> isServer e")
    case True
    have "\<forall>name\<in>set names.
            validate_fields (documentValidate n e) e ?doc pre False sim [name] [] = Some (Returns (es name))"
      using each collect_walk [OF _ True] by blast
    from collect_fields_concat [OF this, of "[]"] show ?thesis
      using True by (auto simp: documentValidate_Suc)
  next
    case False
    with each have "\<forall>name\<in>set names. es name = []"
      by (auto simp: documentValidate_Suc throw_collected_Returns dest!: sym [of "Returns ()"])
    then have "concat (map es names) = []" by simp
    then show ?thesis using False by (simp add: documentValidate_Suc throw_collected_def)
  qed
qed

theorem documentValidate_error_modes_witness:
  "documentValidate 1 example_env user1 (Some [''name'', ''email'']) [] True True
     = Some (Throws (ValidationError [not_a_string ''name''] ''not a string''))
   \<and> documentValidate 1 example_env user1 (Some [''name'', ''email'']) [] False True
     = Some (Throws (ValidationError [not_a_string ''name'', not_a_string ''email''] ''not a string''))"
proof -
  have h1: "documentValidate (Suc 0) example_env user1 (Some []) [] True True = Some (Returns ())"
    by (simp add: ex_simps user1_def)
  have h2: "documentValidate (Suc 0) example_env user1 (Some [''name'']) [] True True
              = Some (Throws (ValidationError [not_a_string ''name''] ''not a string''))"
    by (simp add: ex_simps user1_def)
  have h3: "\<forall>name\<in>set [''name'', ''email''].
              documentValidate (Suc 0) example_env user1 (Some [name]) [] False True
                = Some (throw_collected ((\<lambda>n. [not_a_string n]) name))"
    by (simp add: ex_simps user1_def)
  from documentValidate_error_modes [of 0 example_env user1 "[]" "[]" True "''name''"
      "ValidationError [not_a_string ''name''] ''not a string''" "[''email'']"
      "[''name'', ''email'']" "\<lambda>n. [not_a_string n]"] h1 h2 h3
  show ?thesis by (simp add: throw_collected_def not_a_string_def)
qed

subsection \<open>Skipped fields\<close>

lemma validate_field_skipped:
  assumes "\<not> isNestedFieldName e name"
    and "classGetField e (className doc) name = None
         \<or> (\<exists>fld. classGetField e (className doc) name = Some fld
               \<and> (f_transient fld \<or> (f_getOptional fld doc \<and> isNil (docGet e doc name))))"
  shows "validate_field rec e doc pre stop sim name errors = Some (Returns errors)"
  using assms by (auto simp: validate_field_def)

lemma validate_fields_skipped:
  assumes "\<not> isNestedFieldName e name"
    and "classGetField e (className doc) name = None
         \<or> (\<exists>fld. classGetField e (className doc) name = Some fld
               \<and> (f_transient fld \<or> (f_getOptional fld doc \<and> isNil (docGet e doc name))))"
  shows "validate_fields rec e doc pre stop sim (before @ name # after) errors
     = validate_fields rec e doc pre stop sim (before @ after) errors"
  by (simp add: validate_fields_append validate_field_skipped [OF assms]
      split: option.splits outcome.splits)

lemma first_throw_first:
  "i < length rs \<Longrightarrow> (\<forall>j<i. rs ! j = None) \<Longrightarrow> rs ! i = Some ex \<Longrightarrow> first_throw rs = Throws ex"
proof (induction rs arbitrary: i rule: first_throw.induct)
  case 1
  then show ?case by simp
next
  case (2 rest)
  show ?case
  proof (cases i)
    case 0
    with 2 show ?thesis by simp
  next
    case (Suc k)
    have "\<forall>j<k. rest ! j = None"
    proof (intro allI impI)
      fix j
      assume "j < k"
      then have "Suc j < i" using Suc by simp
      with "2.prems" have "(None # rest) ! Suc j = None" by blast
      then show "rest ! j = None" by simp
    qed
    then show ?thesis
      using "2.IH" [of k] "2.prems" Suc by simp
  qed
next
  case (3 x rest)
  show ?case
  proof (cases i)
    case 0
    with 3 show ?thesis by simp
  next
    case (Suc k)
    with "3.prems" have "(Some x # rest) ! 0 = None" by blast
    then show ?thesis by simp
  qed
qed

text \<open>The field's own validation throws the error of the type-level validation, or,
  when that passes, the error of the first registered validator that fails.\<close>

lemma validate_value_throws:
  assumes "f_validate fld doc (pre @ name) name v = Some ex
     \<or> (f_validate fld doc (pre @ name) name v = None
        \<and> i < length (getValidators e (className doc) name)
        \<and> (\<forall>j<i. Validators e (v_type (getValidators e (className doc) name ! j))
                    doc (pre @ name) name v (getValidators e (className doc) name ! j) = None)
        \<and> Validators e (v_type (getValidators e (className doc) name ! i))
            doc (pre @ name) name v (getValidators e (className doc) name ! i) = Some ex)"
  shows "validate_value e doc fld pre name v = Throws ex"
  using assms
proof
  assume "f_validate fld doc (pre @ name) name v = Some ex"
  then show ?thesis by (simp add: validate_value_def)
next
  let ?vs = "getValidators e (className doc) name"
  let ?rs = "map (\<lambda>vd. Validators e (v_type vd) doc (pre @ name) name v vd) ?vs"
  assume a: "f_validate fld doc (pre @ name) name v = None
        \<and> i < length ?vs
        \<and> (\<forall>j<i. Validators e (v_type (?vs ! j)) doc (pre @ name) name v (?vs ! j) = None)
        \<and> Validators e (v_type (?vs ! i)) doc (pre @ name) name v (?vs ! i) = Some ex"
  have "first_throw ?rs = Throws ex"
    using a by (intro first_throw_first [of i]) auto
  then show ?thesis using a by (simp add: validate_value_def)
qed

lemma validate_field_own:
  assumes "\<not> isNestedFieldName e name"
    and "classGetField e (className doc) name = Some fld"
    and "\<not> f_transient fld"
    and "\<not> (f_getOptional fld doc \<and> isNil (docGet e doc name))"
  shows "validate_value e doc fld pre name (docGet e doc name) = Throws (ValidationError ds msg) \<Longrightarrow>
         validate_field rec e doc pre True sim name [] = Some (Throws (ValidationError ds msg))"
    and "validate_value e doc fld pre name (docGet e doc name) = Throws (ValidationError ds msg) \<Longrightarrow>
         validate_field rec e doc pre False sim name []
           = map_option (map_outcome ((@) ds)) (validate_nested rec e pre False fld (docGet e doc name) [])"
    and "validate_value e doc fld pre name (docGet e doc name) = Returns () \<Longrightarrow>
         validate_field rec e doc pre stop sim name []
           = validate_nested rec e pre stop fld (docGet e doc name) []"
proof -
  show "validate_field rec e doc pre True sim name [] = Some (Throws (ValidationError ds msg))"
    if "validate_value e doc fld pre name (docGet e doc name) = Throws (ValidationError ds msg)"
    using assms that by (auto simp: validate_field_def)
  show "validate_field rec e doc pre False sim name []
           = map_option (map_outcome ((@) ds)) (validate_nested rec e pre False fld (docGet e doc name) [])"
    if "validate_value e doc fld pre name (docGet e doc name) = Throws (ValidationError ds msg)"
    using assms that validate_nested_shift [of rec e pre False fld "docGet e doc name" ds "[]"]
    by (auto simp: validate_field_def)
  show "validate_field rec e doc pre stop sim name []
           = validate_nested rec e pre stop fld (docGet e doc name) []"
    if "validate_value e doc fld pre name (docGet e doc name) = Returns ()"
    using assms that by (auto simp: validate_field_def)
qed

text \<open>
  C7. A name that is no nested pattern and has no field in the class, or whose field is
  transient, or whose field is optional while the value is null or undefined, adds
  nothing to the walk and does not end it: the field alone validates, and a list of
  fields validates as it does without that name. An optional field whose value is
  present and invalid does produce an error, whether the value fails the type-level
  validation or passes it and fails a registered validator of the field (the first that
  fails, \<open>i\<close>). When \<open>stopOnFirstError\<close> is true that error is thrown. When it is false its
  details head the collected ones: the run returns exactly when the walk of the field's
  nested documents does, and then throws a ValidationError whose details are those of
  the field's error followed by the nested ones, unless the nested walk threw another
  kind of error; for a field that is neither an object nor a list it throws a
  ValidationError with the details of the field's error.
\<close>

theorem documentValidate_skips:
  "(\<not> isNestedFieldName e name \<longrightarrow>
    (classGetField e (className doc) name = None
     \<or> (\<exists>fld. classGetField e (className doc) name = Some fld
           \<and> (f_transient fld
               \<or> (f_getOptional fld (cast_document e doc)
                   \<and> isNil (docGet e (cast_document e doc) name))))) \<longrightarrow>
    documentValidate (Suc n) e doc (Some [name]) pre stop sim = Some (Returns ())
    \<and> documentValidate (Suc n) e doc (Some (before @ name # after)) pre stop sim
        = documentValidate (Suc n) e doc (Some (before @ after)) pre stop sim)
   \<and> (\<not> isNestedFieldName e name \<longrightarrow>
       classGetField e (className doc) name = Some fld \<longrightarrow>
       \<not> f_transient fld \<longrightarrow>
       f_getOptional fld (cast_document e doc) \<longrightarrow>
       \<not> isNil (docGet e (cast_document e doc) name) \<longrightarrow>
       (f_validate fld (cast_document e doc) (pre @ name) name (docGet e (cast_document e doc) name)
          = Some (ValidationError ds msg)
        \<or> (f_validate fld (cast_document e doc) (pre @ name) name
              (docGet e (cast_document e doc) name) = None
            \<and> i < length (getValidators e (className doc) name)
            \<and> (\<forall>j<i. Validators e (v_type (getValidators e (className doc) name ! j))
                        (cast_document e doc) (pre @ name) name
                        (docGet e (cast_document e doc) name)
                        (getValidators e (className doc) name ! j) = None)
            \<and> Validators e (v_type (getValidators e (className doc) name ! i))
                (cast_document e doc) (pre @ name) name
                (docGet e (cast_document e doc) name)
                (getValidators e (className doc) name ! i) = Some (ValidationError ds msg))) \<longrightarrow>
       ds \<noteq> [] \<longrightarrow> sim \<or> isServer e \<longrightarrow>
       documentValidate (Suc n) e doc (Some [name]) pre True sim = Some (Throws (ValidationError ds msg))
       \<and> documentValidate (Suc n) e doc (Some [name]) pre False sim
           = map_option
               (\<lambda>w. case w of
                       Returns rest \<Rightarrow> Throws (ValidationError (ds @ rest) (d_message (hd ds)))
                     | Throws ex \<Rightarrow> Throws ex)
               (validate_nested (documentValidate n e) e pre False fld
                  (docGet e (cast_document e doc) name) [])
       \<and> (\<forall>r. documentValidate (Suc n) e doc (Some [name]) pre False sim = Some r \<longrightarrow>
              (\<exists>rest. r = Throws (ValidationError (ds @ rest) (d_message (hd ds))))
              \<or> (\<exists>m. r = Throws (OtherError m)))
       \<and> (f_kind fld = ScalarField \<longrightarrow>
            documentValidate (Suc n) e doc (Some [name]) pre False sim
              = Some (Throws (ValidationError ds (d_message (hd ds))))))"
proof (intro conjI impI)
  assume nn: "\<not> isNestedFieldName e name"
    and cond: "classGetField e (className doc) name = None
     \<or> (\<exists>fld. classGetField e (className doc) name = Some fld
           \<and> (f_transient fld
               \<or> (f_getOptional fld (cast_document e doc)
                   \<and> isNil (docGet e (cast_document e doc) name))))"
  from cond have sk: "classGetField e (className (cast_document e doc)) name = None
     \<or> (\<exists>fld. classGetField e (className (cast_document e doc)) name = Some fld
           \<and> (f_transient fld
               \<or> (f_getOptional fld (cast_document e doc)
                   \<and> isNil (docGet e (cast_document e doc) name))))"
    by simp
  show "documentValidate (Suc n) e doc (Some [name]) pre stop sim = Some (Returns ())"
    by (simp add: validate_field_skipped [OF nn sk] throw_collected_def)
  show "documentValidate (Suc n) e doc (Some (before @ name # after)) pre stop sim
        = documentValidate (Suc n) e doc (Some (before @ after)) pre stop sim"
    by (simp only: documentValidate_Suc_any option.case validate_fields_skipped [OF nn sk])
next
  let ?doc = "cast_document e doc"
  let ?v = "docGet e ?doc name"
  let ?vs = "getValidators e (className doc) name"
  assume nn: "\<not> isNestedFieldName e name"
    and f: "classGetField e (className doc) name = Some fld"
    and nt: "\<not> f_transient fld"
    and present: "\<not> isNil ?v"
    and bad: "f_validate fld ?doc (pre @ name) name ?v = Some (ValidationError ds msg)
        \<or> (f_validate fld ?doc (pre @ name) name ?v = None
            \<and> i < length ?vs
            \<and> (\<forall>j<i. Validators e (v_type (?vs ! j)) ?doc (pre @ name) name ?v (?vs ! j) = None)
            \<and> Validators e (v_type (?vs ! i)) ?doc (pre @ name) name ?v (?vs ! i)
                = Some (ValidationError ds msg))"
    and ds: "ds \<noteq> []" and run: "sim \<or> isServer e"
  have f': "classGetField e (className ?doc) name = Some fld"
    using f by simp
  have p: "\<not> (f_getOptional fld ?doc \<and> isNil ?v)"
    using present by simp
  have own: "validate_value e ?doc fld pre name ?v = Throws (ValidationError ds msg)"
    using bad by (intro validate_value_throws [where i = i]) simp
  note fld = validate_field_own [OF nn f' nt p]
  show stop: "documentValidate (Suc n) e doc (Some [name]) pre True sim
                = Some (Throws (ValidationError ds msg))"
    using fld(1) [OF own] by (simp add: documentValidate_single [OF run] del: documentValidate.simps)
  let ?nested = "validate_nested (documentValidate n e) e pre False fld ?v []"
  show collect: "documentValidate (Suc n) e doc (Some [name]) pre False sim
           = map_option
               (\<lambda>w. case w of
                       Returns rest \<Rightarrow> Throws (ValidationError (ds @ rest) (d_message (hd ds)))
                     | Throws ex \<Rightarrow> Throws ex)
               ?nested"
  proof (cases ?nested)
    case None
    then show ?thesis
      using fld(2) [OF own, of "documentValidate n e" sim]
      by (simp add: documentValidate_single [OF run] del: documentValidate.simps)
  next
    case (Some w)
    then show ?thesis
      using fld(2) [OF own, of "documentValidate n e" sim] ds
      by (cases w)
        (simp_all add: documentValidate_single [OF run] throw_collected_def
          del: documentValidate.simps)
  qed
  show "\<forall>r. documentValidate (Suc n) e doc (Some [name]) pre False sim = Some r \<longrightarrow>
              (\<exists>rest. r = Throws (ValidationError (ds @ rest) (d_message (hd ds))))
              \<or> (\<exists>m. r = Throws (OtherError m))"
  proof (intro allI impI)
    fix r
    assume r: "documentValidate (Suc n) e doc (Some [name]) pre False sim = Some r"
    then obtain w where w: "?nested = Some w"
      unfolding collect by (cases ?nested) simp_all
    show "(\<exists>rest. r = Throws (ValidationError (ds @ rest) (d_message (hd ds))))
              \<or> (\<exists>m. r = Throws (OtherError m))"
    proof (cases w)
      case (Returns rest)
      with r w show ?thesis unfolding collect by auto
    next
      case (Throws ex)
      with w obtain m where "ex = OtherError m"
        using validate_nested_collect_throws by blast
      with r w Throws show ?thesis unfolding collect by auto
    qed
  qed
  assume "f_kind fld = ScalarField"
  then have "?nested = Some (Returns [])"
    by (simp add: validate_nested_def)
  then show "documentValidate (Suc n) e doc (Some [name]) pre False sim
              = Some (Throws (ValidationError ds (d_message (hd ds))))"
    unfolding collect by simp
qed

theorem documentValidate_skips_witness:
  "documentValidate 1 example_env user1 (Some [''cache'']) [] True True = Some (Returns ())
   \<and> documentValidate 1 example_env user1 (Some [''nickname'']) [] False True = Some (Returns ())
   \<and> documentValidate 1 example_env user1 (Some [''ghost'']) [] True True = Some (Returns ())
   \<and> documentValidate 1 example_env user2 (Some [''nickname'']) [] True True
       = Some (Throws (ValidationError [not_a_string ''nickname''] ''not a string''))
   \<and> documentValidate 1 example_env user2 (Some [''nickname'']) [] False True
       = Some (Throws (ValidationError [not_a_string ''nickname''] ''not a string''))
   \<and> documentValidate 1 account_env account1 (Some [''handle'']) [] True True
       = Some (Throws (ValidationError [too_short ''handle''] ''too short''))
   \<and> documentValidate 1 account_env account1 (Some [''handle'']) [] False True
       = Some (Throws (ValidationError [too_short ''handle''] ''too short''))"
proof -
  have nn: "\<And>n. n \<in> {''cache'', ''nickname'', ''ghost''} \<Longrightarrow> \<not> isNestedFieldName example_env n"
    by (auto simp: example_env_def)
  have f: "classGetField example_env (className user2) ''nickname''
             = Some ((string_field ''nickname'')\<lparr>f_getOptional := (\<lambda>d. True)\<rparr>)"
    by (simp add: example_env_def user2_def user_fields_def)
  have v: "docGet example_env (cast_document example_env user2) ''nickname'' = VPrim (JNum 5)"
    by (simp add: example_env_def user2_def cast_document_def lookup_prop_def)
  have s1: "\<exists>fld. classGetField example_env (className user1) ''cache'' = Some fld
              \<and> (f_transient fld
                  \<or> (f_getOptional fld (cast_document example_env user1)
                      \<and> isNil (docGet example_env (cast_document example_env user1) ''cache'')))"
    by (simp add: example_env_def user1_def user_fields_def string_field_def)
  have s2: "\<exists>fld. classGetField example_env (className user1) ''nickname'' = Some fld
              \<and> (f_transient fld
                  \<or> (f_getOptional fld (cast_document example_env user1)
                      \<and> isNil (docGet example_env (cast_document example_env user1) ''nickname'')))"
    by (simp add: example_env_def user1_def user_fields_def string_field_def cast_document_def
        lookup_prop_def)
  have s3: "classGetField example_env (className user1) ''ghost'' = None"
    by (simp add: example_env_def user1_def user_fields_def)
  have skipped: "documentValidate 1 example_env user1 (Some [''cache'']) [] True True = Some (Returns ())
      \<and> documentValidate 1 example_env user1 (Some [''nickname'']) [] False True = Some (Returns ())
      \<and> documentValidate 1 example_env user1 (Some [''ghost'']) [] True True = Some (Returns ())"
    using documentValidate_skips [of example_env "''cache''" user1 0 "[]" True True "[]" "[]"]
      documentValidate_skips [of example_env "''nickname''" user1 0 "[]" False True "[]" "[]"]
      documentValidate_skips [of example_env "''ghost''" user1 0 "[]" True True "[]" "[]"]
      nn s1 s2 s3
    by (simp del: documentValidate.simps)
  have typed: "documentValidate 1 example_env user2 (Some [''nickname'']) [] True True
       = Some (Throws (ValidationError [not_a_string ''nickname''] ''not a string''))
     \<and> documentValidate 1 example_env user2 (Some [''nickname'']) [] False True
       = Some (Throws (ValidationError [not_a_string ''nickname''] ''not a string''))"
    using documentValidate_skips [of example_env "''nickname''" user2 0 "[]" True True "[]" "[]"
        "(string_field ''nickname'')\<lparr>f_getOptional := (\<lambda>d. True)\<rparr>"
        "[not_a_string ''nickname'']" "''not a string''"]
      nn f v
    by (simp add: string_field_def string_type_def not_a_string_def validate_nested_def
        del: documentValidate.simps)
  have nh: "\<not> isNestedFieldName account_env ''handle''"
    by (simp add: account_env_def example_env_def)
  have fh: "classGetField account_env (className account1) ''handle''
             = Some ((string_field ''handle'')\<lparr>f_getOptional := (\<lambda>d. True)\<rparr>)"
    by (simp add: account_env_def account1_def account_fields_def)
  have vh: "docGet account_env (cast_document account_env account1) ''handle'' = VPrim (JStr ''ab'')"
    by (simp add: account_env_def example_env_def account1_def cast_document_def lookup_prop_def)
  have vs: "getValidators account_env (className account1) ''handle''
              = [\<lparr>v_type = ''string'', v_param = JNull, v_message = ''not a string''\<rparr>,
                 \<lparr>v_type = ''minLength'', v_param = JNum 3, v_message = ''too short''\<rparr>]"
    by (simp add: account_env_def account1_def account_validators_def)
  have reg: "Validators account_env = account_registry" "isServer account_env"
    by (simp_all add: account_env_def example_env_def)
  have registered: "documentValidate 1 account_env account1 (Some [''handle'']) [] True True
       = Some (Throws (ValidationError [too_short ''handle''] ''too short''))
     \<and> documentValidate 1 account_env account1 (Some [''handle'']) [] False True
       = Some (Throws (ValidationError [too_short ''handle''] ''too short''))"
    using documentValidate_skips [of account_env "''handle''" account1 0 "[]" True True "[]" "[]"
        "(string_field ''handle'')\<lparr>f_getOptional := (\<lambda>d. True)\<rparr>"
        "[too_short ''handle'']" "''too short''" 1]
      nh fh vh
    by (simp add: vs reg string_field_def string_type_def account_registry_def too_short_def
        validate_nested_def less_Suc_eq del: documentValidate.simps)
  show ?thesis
    using skipped typed registered by (simp only: simp_thms)
qed

subsection \<open>Nested documents\<close>

lemma catch_throw_collected_any:
  "\<not> stop \<or> ds = [] \<Longrightarrow>
   catchValidationError stop (throw_collected ds) errors = Returns (errors @ ds)"
  by (cases ds) (auto simp: throw_collected_def)

lemma catch_rethrow:
  "stop \<or> (\<exists>m. ex = OtherError m) \<Longrightarrow> catchValidationError stop (Throws ex) errors = Throws ex"
  by (cases ex) auto

lemma validate_each_all:
  "(\<forall>j<length xs. call (xs ! j) = Some (throw_collected (es j)) \<and> (stop \<longrightarrow> es j = [])) \<Longrightarrow>
   validate_each call stop xs errors = Some (Returns (errors @ concat (map es [0..<length xs])))"
proof (induction xs arbitrary: errors es)
  case Nil
  show ?case by simp
next
  case (Cons x xs)
  from Cons.prems have x: "call x = Some (throw_collected (es 0))" "\<not> stop \<or> es 0 = []"
    by auto
  from Cons.prems
  have rest: "\<forall>j<length xs. call (xs ! j) = Some (throw_collected ((es \<circ> Suc) j))
                \<and> (stop \<longrightarrow> (es \<circ> Suc) j = [])"
    by auto
  have idx: "map es [0..<length (x # xs)] = es 0 # map (es \<circ> Suc) [0..<length xs]"
    by (simp add: upt_conv_Cons map_Suc_upt [symmetric] del: upt_Suc)
  show ?case
    unfolding idx using Cons.IH [OF rest, of "errors @ es 0"] x
    by (simp add: catch_throw_collected_any comp_def)
qed

lemma validate_each_first:
  "i < length xs \<Longrightarrow>
   (\<forall>j<i. call (xs ! j) = Some (throw_collected (es j)) \<and> (stop \<longrightarrow> es j = [])) \<Longrightarrow>
   call (xs ! i) = Some (Throws ex) \<Longrightarrow> stop \<or> (\<exists>m. ex = OtherError m) \<Longrightarrow>
   validate_each call stop xs errors = Some (Throws ex)"
proof (induction xs arbitrary: i es errors)
  case Nil
  then show ?case by simp
next
  case (Cons x xs)
  show ?case
  proof (cases i)
    case 0
    with Cons.prems show ?thesis by (simp add: catch_rethrow)
  next
    case (Suc k)
    with Cons.prems have "call ((x # xs) ! 0) = Some (throw_collected (es 0)) \<and> (stop \<longrightarrow> es 0 = [])"
      by blast
    then have first: "call x = Some (throw_collected (es 0))" "\<not> stop \<or> es 0 = []"
      by auto
    have before: "\<forall>j<k. call (xs ! j) = Some (throw_collected ((es \<circ> Suc) j))
                    \<and> (stop \<longrightarrow> (es \<circ> Suc) j = [])"
    proof (intro allI impI)
      fix j
      assume "j < k"
      then have "Suc j < i" using Suc by simp
      with Cons.prems
      have "call ((x # xs) ! Suc j) = Some (throw_collected (es (Suc j))) \<and> (stop \<longrightarrow> es (Suc j) = [])"
        by blast
      then show "call (xs ! j) = Some (throw_collected ((es \<circ> Suc) j)) \<and> (stop \<longrightarrow> (es \<circ> Suc) j = [])"
        by simp
    qed
    have "validate_each call stop xs (errors @ es 0) = Some (Throws ex)"
      using Cons.IH [of k "es \<circ> Suc", OF _ before] Cons.prems Suc by simp
    with first show ?thesis by (simp add: catch_throw_collected_any)
  qed
qed

lemma instances_append: "instances (xs @ ys) = instances xs @ instances ys"
  by (induction xs rule: instances.induct) simp_all

lemma instances_single:
  "instances [(ix, x)] = (case x of VInst d \<Rightarrow> [(ix, d)] | _ \<Rightarrow> [])"
  by (cases x) simp_all

lemma instances_array:
  "instances (zip (map show_nat [0..<length xs]) xs)
     = concat (map (\<lambda>j. case xs ! j of VInst d \<Rightarrow> [(show_nat j, d)] | _ \<Rightarrow> []) [0..<length xs])"
proof (induction xs rule: rev_induct)
  case Nil
  show ?case by simp
next
  case (snoc x xs)
  have same: "map (\<lambda>j. case (xs @ [x]) ! j of VInst d \<Rightarrow> [(show_nat j, d)] | _ \<Rightarrow> []) [0..<length xs]
            = map (\<lambda>j. case xs ! j of VInst d \<Rightarrow> [(show_nat j, d)] | _ \<Rightarrow> []) [0..<length xs]"
    by (simp add: nth_append)
  show ?case
    using snoc.IH by (simp add: instances_append instances_single same)
qed

lemma map_outcome_Nil: "map_option (map_outcome ((@) [])) r = r"
proof (cases r)
  case None
  then show ?thesis by simp
next
  case (Some w)
  then show ?thesis by (cases w) simp_all
qed

text \<open>A field that is reached: its nested documents are walked when its own validation
  returned, and, unless the first error stops the walk, when it failed.\<close>

lemma validate_field_reached:
  assumes "\<not> isNestedFieldName e name"
    and "classGetField e (className doc) name = Some fld"
    and "\<not> f_transient fld"
    and "\<not> (f_getOptional fld doc \<and> isNil (docGet e doc name))"
    and "(validate_value e doc fld pre name (docGet e doc name) = Returns () \<and> ods = [])
         \<or> (\<not> stop \<and> (\<exists>msg. validate_value e doc fld pre name (docGet e doc name)
                               = Throws (ValidationError ods msg)))"
  shows "validate_field rec e doc pre stop sim name []
           = map_option (map_outcome ((@) ods)) (validate_nested rec e pre stop fld (docGet e doc name) [])"
  using assms(5)
proof (elim disjE conjE exE)
  assume "validate_value e doc fld pre name (docGet e doc name) = Returns ()" and "ods = []"
  then show ?thesis
    using validate_field_own(3) [OF assms(1-4)] by (simp add: map_outcome_Nil)
next
  fix msg
  assume "\<not> stop"
    and "validate_value e doc fld pre name (docGet e doc name) = Throws (ValidationError ods msg)"
  then show ?thesis
    using validate_field_own(2) [OF assms(1-4)] by simp
qed

lemma show_nat_small: "show_nat 0 = ''0''" "show_nat (Suc 0) = ''1''"
  by (simp_all add: show_nat.simps)

text \<open>
  C2, as the code has it. Take a field that is validated: its name is no nested
  pattern, the class has the field, it is not transient, and it is not optional with a
  null or undefined value. Let the field's own validation have passed, or have failed
  with the details \<open>ods\<close> while \<open>stopOnFirstError\<close> is false (\<open>ods\<close> is empty when it
  passed).

  When it is an object field holding a document, that document is validated in its
  class's validation order with the prefix extended by the field's name and a dot, under
  the caller's \<open>stopOnFirstError\<close>: the details that call throws follow \<open>ods\<close>, an error
  that the call throws and that is not collected is thrown on, and with empty \<open>ods\<close>
  validating the field is that call.

  When it is a list field of a class, the elements that are documents are validated in
  order, each with the prefix extended by the field's name, a dot, the element's index
  and a dot, under the caller's \<open>stopOnFirstError\<close>: the details they throw follow \<open>ods\<close>
  in order, and the first error that is not collected ends the walk. In an array the
  index of an element is its position, in decimal digits.
\<close>

theorem documentValidate_recurses:
  assumes run: "sim \<or> isServer e"
    and nn: "\<not> isNestedFieldName e name"
    and f: "classGetField e (className doc) name = Some fld"
    and nt: "\<not> f_transient fld"
    and present: "\<not> (f_getOptional fld (cast_document e doc)
                      \<and> isNil (docGet e (cast_document e doc) name))"
    and own: "(validate_value e (cast_document e doc) fld pre name
                 (docGet e (cast_document e doc) name) = Returns () \<and> ods = [])
              \<or> (\<not> stop
                  \<and> (\<exists>msg. validate_value e (cast_document e doc) fld pre name
                              (docGet e (cast_document e doc) name)
                            = Throws (ValidationError ods msg)))"
  shows "(f_kind fld = ObjectField \<longrightarrow> docGet e (cast_document e doc) name = VInst d \<longrightarrow>
          (ods = [] \<longrightarrow>
             documentValidate (Suc n) e doc (Some [name]) pre stop sim
               = documentValidate n e d (Some (getValidationOrder e (className d)))
                   (pre @ f_name fld @ ''.'') stop True)
          \<and> (documentValidate n e d (Some (getValidationOrder e (className d)))
                (pre @ f_name fld @ ''.'') stop True = Some (throw_collected esn) \<longrightarrow>
              documentValidate (Suc n) e doc (Some [name]) pre stop sim
                = Some (throw_collected (ods @ esn)))
          \<and> (documentValidate n e d (Some (getValidationOrder e (className d)))
                (pre @ f_name fld @ ''.'') stop True = Some (Throws ex) \<longrightarrow>
              stop \<or> (\<exists>m. ex = OtherError m) \<longrightarrow>
              documentValidate (Suc n) e doc (Some [name]) pre stop sim = Some (Throws ex))
          \<and> (documentValidate n e d (Some (getValidationOrder e (className d)))
                (pre @ f_name fld @ ''.'') stop True = None \<longrightarrow>
              documentValidate (Suc n) e doc (Some [name]) pre stop sim = None))
       \<and> (f_kind fld = ListField True \<longrightarrow>
          instances (each_entries e (docGet e (cast_document e doc) name)) = els \<longrightarrow>
          ((\<forall>j<length els.
              documentValidate n e (snd (els ! j))
                (Some (getValidationOrder e (className (snd (els ! j)))))
                (pre @ f_name fld @ ''.'' @ fst (els ! j) @ ''.'') stop True
              = Some (throw_collected (es j))
              \<and> (stop \<longrightarrow> es j = [])) \<longrightarrow>
           documentValidate (Suc n) e doc (Some [name]) pre stop sim
             = Some (throw_collected (ods @ concat (map es [0..<length els]))))
          \<and> (i < length els \<longrightarrow>
             (\<forall>j<i.
                documentValidate n e (snd (els ! j))
                  (Some (getValidationOrder e (className (snd (els ! j)))))
                  (pre @ f_name fld @ ''.'' @ fst (els ! j) @ ''.'') stop True
                = Some (throw_collected (es j))
                \<and> (stop \<longrightarrow> es j = [])) \<longrightarrow>
             documentValidate n e (snd (els ! i))
               (Some (getValidationOrder e (className (snd (els ! i)))))
               (pre @ f_name fld @ ''.'' @ fst (els ! i) @ ''.'') stop True
             = Some (Throws ex) \<longrightarrow>
             stop \<or> (\<exists>m. ex = OtherError m) \<longrightarrow>
             documentValidate (Suc n) e doc (Some [name]) pre stop sim = Some (Throws ex)))
       \<and> instances (each_entries e (VArray xs))
           = concat (map (\<lambda>j. case xs ! j of VInst d' \<Rightarrow> [(show_nat j, d')] | _ \<Rightarrow> [])
                       [0..<length xs])"
proof -
  let ?doc = "cast_document e doc"
  let ?v = "docGet e ?doc name"
  let ?whole = "documentValidate (Suc n) e doc (Some [name]) pre stop sim"
  have f': "classGetField e (className ?doc) name = Some fld"
    using f by simp
  have stop0: "ods = []" if stop
    using own that by auto
  have field: "validate_field (documentValidate n e) e ?doc pre stop sim name []
                 = map_option (map_outcome ((@) ods))
                     (validate_nested (documentValidate n e) e pre stop fld ?v [])"
    using validate_field_reached [OF nn f' nt present own] .
  have whole: "?whole =
     (case map_option (map_outcome ((@) ods))
             (validate_nested (documentValidate n e) e pre stop fld ?v []) of
        None \<Rightarrow> None
      | Some (Throws ex) \<Rightarrow> Some (Throws ex)
      | Some (Returns errors) \<Rightarrow> Some (throw_collected errors))"
    by (simp only: documentValidate_single [OF run] field)
  let ?nested = "documentValidate n e d (Some (getValidationOrder e (className d)))
                   (pre @ f_name fld @ ''.'') stop True"
  have obj: "validate_nested (documentValidate n e) e pre stop fld ?v [] = catch_call stop ?nested []"
    if "f_kind fld = ObjectField" and "?v = VInst d"
    using that by (simp add: validate_nested_def)
  have o1: "?whole = ?nested"
    if k: "f_kind fld = ObjectField" and v: "?v = VInst d" and e: "ods = []"
  proof (cases ?nested)
    case None
    then show ?thesis by (simp add: whole obj [OF k v] del: documentValidate.simps)
  next
    case (Some r)
    have "stop \<or> (\<exists>errs. r = throw_collected errs) \<or> (\<exists>msg. r = Throws (OtherError msg))"
      using collect_result_form [of n e d _ _ True r] Some by (cases stop) auto
    from relay_nested [OF this] show ?thesis
      using Some e
      by (simp add: whole obj [OF k v] map_outcome_Nil del: documentValidate.simps
          split: outcome.splits)
  qed
  have o2: "?whole = Some (throw_collected (ods @ esn))"
    if k: "f_kind fld = ObjectField" and v: "?v = VInst d"
      and r: "?nested = Some (throw_collected esn)"
  proof (cases stop)
    case True
    then show ?thesis
      using o1 [OF k v stop0 [OF True]] r stop0 [OF True] by simp
  next
    case False
    then have "catchValidationError stop (throw_collected esn) [] = Returns esn"
      using catch_throw_collected_any [of stop esn "[]"] by simp
    then show ?thesis
      using r by (simp add: whole obj [OF k v] del: documentValidate.simps)
  qed
  have o3: "?whole = Some (Throws ex)"
    if k: "f_kind fld = ObjectField" and v: "?v = VInst d"
      and r: "?nested = Some (Throws ex)" and thrown: "stop \<or> (\<exists>m. ex = OtherError m)"
  proof -
    have "catch_call stop ?nested [] = Some (Throws ex)"
      using r thrown by (simp add: catch_rethrow)
    then show ?thesis
      by (simp add: whole obj [OF k v] del: documentValidate.simps)
  qed
  have o4: "?whole = None"
    if k: "f_kind fld = ObjectField" and v: "?v = VInst d" and r: "?nested = None"
    using r by (simp add: whole obj [OF k v] del: documentValidate.simps)
  let ?call = "\<lambda>(el :: string \<times> vdoc).
     documentValidate n e (snd el) (Some (getValidationOrder e (className (snd el))))
       (pre @ f_name fld @ ''.'' @ fst el @ ''.'') stop True"
  have lst: "validate_nested (documentValidate n e) e pre stop fld ?v []
               = validate_each ?call stop els []"
    if "f_kind fld = ListField True" and "instances (each_entries e ?v) = els"
    using that by (simp add: validate_nested_def)
  have l1: "?whole = Some (throw_collected (ods @ concat (map es [0..<length els])))"
    if k: "f_kind fld = ListField True" and v: "instances (each_entries e ?v) = els"
      and each: "\<forall>j<length els. ?call (els ! j) = Some (throw_collected (es j))
                   \<and> (stop \<longrightarrow> es j = [])"
    using validate_each_all [of els ?call es stop "[]", OF each]
    by (simp add: whole lst [OF k v] del: documentValidate.simps)
  have l2: "?whole = Some (Throws ex)"
    if k: "f_kind fld = ListField True" and v: "instances (each_entries e ?v) = els"
      and i: "i < length els"
      and before: "\<forall>j<i. ?call (els ! j) = Some (throw_collected (es j)) \<and> (stop \<longrightarrow> es j = [])"
      and bad: "?call (els ! i) = Some (Throws ex)"
      and thrown: "stop \<or> (\<exists>m. ex = OtherError m)"
    using validate_each_first [of i els ?call es stop ex "[]", OF i before bad thrown]
    by (simp add: whole lst [OF k v] del: documentValidate.simps)
  have arr: "instances (each_entries e (VArray xs))
           = concat (map (\<lambda>j. case xs ! j of VInst d' \<Rightarrow> [(show_nat j, d')] | _ \<Rightarrow> [])
                       [0..<length xs])"
    by (simp add: instances_array)
  show ?thesis
    using o1 o2 o3 o4 l1 l2 arr by blast
qed

theorem documentValidate_recurses_witness:
  "documentValidate 2 account_env account1 (Some [''billing'']) [] False True
     = Some (Throws (ValidationError [unverified ''billing'', not_a_string ''billing.city'']
                       ''not verified''))
   \<and> documentValidate 2 account_env account1 (Some [''branches'']) [] False True
     = Some (Throws (ValidationError [unverified ''branches'', not_a_string ''branches.1.city'']
                       ''not verified''))
   \<and> documentValidate 2 example_env user1 (Some [''address'']) [] True True
     = Some (Throws (ValidationError [not_a_string ''address.city''] ''not a string''))
   \<and> documentValidate 2 example_env user1 (Some [''phones'']) [] True True
     = Some (Throws (ValidationError [not_a_string ''phones.1.number''] ''not a string''))"
proof -
  let ?address = "VDoc ''Address'' []"
  let ?phones = "[VDoc ''Phone'' [(''number'', VPrim (JStr ''1''))], VDoc ''Phone'' []]"
  have run: "True \<or> isServer account_env" "True \<or> isServer example_env"
    by simp_all
  have nn: "\<not> isNestedFieldName account_env ''billing''"
    "\<not> isNestedFieldName account_env ''branches''"
    "\<not> isNestedFieldName example_env ''address''"
    "\<not> isNestedFieldName example_env ''phones''"
    by (simp_all add: account_env_def example_env_def)
  have fb: "classGetField account_env (className account1) ''billing''
              = Some (nested_field ''billing'' ObjectField)"
    and fr: "classGetField account_env (className account1) ''branches''
              = Some (nested_field ''branches'' (ListField True))"
    by (simp_all add: account_env_def account1_def account_fields_def)
  have fa: "classGetField example_env (className user1) ''address''
              = Some (nested_field ''address'' ObjectField)"
    and fp: "classGetField example_env (className user1) ''phones''
              = Some (nested_field ''phones'' (ListField True))"
    by (simp_all add: example_env_def user1_def user_fields_def)
  have nt: "\<And>n k. \<not> f_transient (nested_field n k)"
    by (simp add: nested_field_def)
  have vb: "docGet account_env (cast_document account_env account1) ''billing'' = VInst ?address"
    and vr: "docGet account_env (cast_document account_env account1) ''branches''
               = VArray [VPrim JNull, VInst ?address]"
    by (simp_all add: account_env_def example_env_def account1_def cast_document_def lookup_prop_def)
  have va: "docGet example_env (cast_document example_env user1) ''address'' = VInst ?address"
    and vp: "docGet example_env (cast_document example_env user1) ''phones'' = VArray (map VInst ?phones)"
    by (simp_all add: example_env_def user1_def cast_document_def lookup_prop_def)
  have pb: "\<not> (f_getOptional (nested_field ''billing'' ObjectField) (cast_document account_env account1)
               \<and> isNil (docGet account_env (cast_document account_env account1) ''billing''))"
    and pr: "\<not> (f_getOptional (nested_field ''branches'' (ListField True))
                  (cast_document account_env account1)
               \<and> isNil (docGet account_env (cast_document account_env account1) ''branches''))"
    and pa: "\<not> (f_getOptional (nested_field ''address'' ObjectField) (cast_document example_env user1)
               \<and> isNil (docGet example_env (cast_document example_env user1) ''address''))"
    and pp: "\<not> (f_getOptional (nested_field ''phones'' (ListField True))
                  (cast_document example_env user1)
               \<and> isNil (docGet example_env (cast_document example_env user1) ''phones''))"
    by (simp_all add: nested_field_def)
  have ob: "(validate_value account_env (cast_document account_env account1)
               (nested_field ''billing'' ObjectField) [] ''billing''
               (docGet account_env (cast_document account_env account1) ''billing'') = Returns ()
             \<and> [unverified ''billing''] = [])
            \<or> (\<not> False
                \<and> (\<exists>msg. validate_value account_env (cast_document account_env account1)
                            (nested_field ''billing'' ObjectField) [] ''billing''
                            (docGet account_env (cast_document account_env account1) ''billing'')
                          = Throws (ValidationError [unverified ''billing''] msg)))"
    and or: "(validate_value account_env (cast_document account_env account1)
               (nested_field ''branches'' (ListField True)) [] ''branches''
               (docGet account_env (cast_document account_env account1) ''branches'') = Returns ()
             \<and> [unverified ''branches''] = [])
            \<or> (\<not> False
                \<and> (\<exists>msg. validate_value account_env (cast_document account_env account1)
                            (nested_field ''branches'' (ListField True)) [] ''branches''
                            (docGet account_env (cast_document account_env account1) ''branches'')
                          = Throws (ValidationError [unverified ''branches''] msg)))"
    by (simp_all add: validate_value_def nested_field_def account_env_def account1_def
        cast_document_def account_validators_def account_registry_def)
  have oa: "(validate_value example_env (cast_document example_env user1)
              (nested_field ''address'' ObjectField) [] ''address''
              (docGet example_env (cast_document example_env user1) ''address'') = Returns ()
             \<and> ([] :: details list) = [])
            \<or> (\<not> True
                \<and> (\<exists>msg. validate_value example_env (cast_document example_env user1)
                            (nested_field ''address'' ObjectField) [] ''address''
                            (docGet example_env (cast_document example_env user1) ''address'')
                          = Throws (ValidationError [] msg)))"
    and op: "(validate_value example_env (cast_document example_env user1)
              (nested_field ''phones'' (ListField True)) [] ''phones''
              (docGet example_env (cast_document example_env user1) ''phones'') = Returns ()
             \<and> ([] :: details list) = [])
            \<or> (\<not> True
                \<and> (\<exists>msg. validate_value example_env (cast_document example_env user1)
                            (nested_field ''phones'' (ListField True)) [] ''phones''
                            (docGet example_env (cast_document example_env user1) ''phones'')
                          = Throws (ValidationError [] msg)))"
    by (simp_all add: validate_value_def nested_field_def example_env_def)
  have city: "\<And>p. documentValidate (Suc 0) account_env ?address
                 (Some (getValidationOrder account_env (className ?address))) p False True
               = Some (throw_collected [not_a_string (p @ ''city'')])"
    by (simp add: ex_simps account_env_def account_validators_def)
  have city': "documentValidate (Suc 0) example_env ?address
                 (Some (getValidationOrder example_env (className ?address))) ''address.'' True True
               = Some (Throws (ValidationError [not_a_string ''address.city''] ''not a string''))"
    by (simp add: ex_simps)
  have p0: "documentValidate (Suc 0) example_env (?phones ! 0)
                 (Some (getValidationOrder example_env (className (?phones ! 0)))) ''phones.0.'' True True
               = Some (throw_collected [])"
    by (simp add: ex_simps)
  have p1: "documentValidate (Suc 0) example_env (?phones ! 1)
                 (Some (getValidationOrder example_env (className (?phones ! 1)))) ''phones.1.'' True True
               = Some (Throws (ValidationError [not_a_string ''phones.1.number''] ''not a string''))"
    by (simp add: ex_simps)
  note billing = documentValidate_recurses [where e = account_env and name = "''billing''"
      and doc = account1 and sim = True and stop = False and pre = "[]" and n = "Suc 0"
      and fld = "nested_field ''billing'' ObjectField" and ods = "[unverified ''billing'']"
      and d = ?address and esn = "[not_a_string ''billing.city'']",
      OF run(1) nn(1) fb nt pb ob]
  note branches = documentValidate_recurses [where e = account_env and name = "''branches''"
      and doc = account1 and sim = True and stop = False and pre = "[]" and n = "Suc 0"
      and fld = "nested_field ''branches'' (ListField True)" and ods = "[unverified ''branches'']"
      and els = "[(''1'', ?address)]" and es = "\<lambda>j. [not_a_string ''branches.1.city'']",
      OF run(1) nn(2) fr nt pr or]
  note address = documentValidate_recurses [where e = example_env and name = "''address''"
      and doc = user1 and sim = True and stop = True and pre = "[]" and n = "Suc 0"
      and fld = "nested_field ''address'' ObjectField" and ods = "[]"
      and d = ?address
      and ex = "ValidationError [not_a_string ''address.city''] ''not a string''",
      OF run(2) nn(3) fa nt pa oa]
  note phones = documentValidate_recurses [where e = example_env and name = "''phones''"
      and doc = user1 and sim = True and stop = True and pre = "[]" and n = "Suc 0"
      and fld = "nested_field ''phones'' (ListField True)" and ods = "[]"
      and els = "[(''0'', ?phones ! 0), (''1'', ?phones ! 1)]" and es = "\<lambda>j. []" and i = 1
      and ex = "ValidationError [not_a_string ''phones.1.number''] ''not a string''",
      OF run(2) nn(4) fp nt pp op]
  have c1: "documentValidate (Suc (Suc 0)) account_env account1 (Some [''billing'']) [] False True
     = Some (Throws (ValidationError [unverified ''billing'', not_a_string ''billing.city'']
                       ''not verified''))"
    using billing vb city [of "''billing.''"]
    by (simp add: nested_field_def throw_collected_def unverified_def del: documentValidate.simps)
  have c2: "documentValidate (Suc (Suc 0)) account_env account1 (Some [''branches'']) [] False True
     = Some (Throws (ValidationError [unverified ''branches'', not_a_string ''branches.1.city'']
                       ''not verified''))"
    using branches vr city [of "''branches.1.''"]
    by (simp add: nested_field_def throw_collected_def unverified_def show_nat_small
        del: documentValidate.simps)
  have c3: "documentValidate (Suc (Suc 0)) example_env user1 (Some [''address'']) [] True True
     = Some (Throws (ValidationError [not_a_string ''address.city''] ''not a string''))"
    using address va city' by (simp add: nested_field_def del: documentValidate.simps)
  have c4: "documentValidate (Suc (Suc 0)) example_env user1 (Some [''phones'']) [] True True
     = Some (Throws (ValidationError [not_a_string ''phones.1.number''] ''not a string''))"
    using phones vp p0 p1
    by (simp add: nested_field_def show_nat_small less_Suc_eq del: documentValidate.simps)
  show ?thesis
    using c1 c2 c3 c4 by (simp only: numeral_2_eq_2 simp_thms)
qed

text \<open>
  C2 as stated fails for a transient object field: \<open>draft\<close> holds a document whose
  validation throws, and validating \<open>draft\<close> returns in both modes. It fails, too, when
  \<open>stopOnFirstError\<close> is true and the field's own validation fails: validating \<open>billing\<close>,
  whose document is as invalid, throws the field's own error and nothing of the
  document's.
\<close>

theorem documentValidate_transient_counterexample:
  "classGetField account_env (className account1) ''draft''
     = Some \<lparr>f_name = ''draft'', f_transient = True, f_getOptional = (\<lambda>d. False),
             f_kind = ObjectField, f_validate = (\<lambda>d name nestedName v. None)\<rparr>
   \<and> docGet account_env (cast_document account_env account1) ''draft'' = VInst (VDoc ''Address'' [])
   \<and> documentValidate 1 account_env (VDoc ''Address'' [])
        (Some (getValidationOrder account_env ''Address'')) ''draft.'' True True
       = Some (Throws (ValidationError [not_a_string ''draft.city''] ''not a string''))
   \<and> documentValidate 2 account_env account1 (Some [''draft'']) [] True True = Some (Returns ())
   \<and> documentValidate 2 account_env account1 (Some [''draft'']) [] False True = Some (Returns ())
   \<and> documentValidate 2 account_env account1 (Some [''billing'']) [] True True
       = Some (Throws (ValidationError [unverified ''billing''] ''not verified''))"
  by (simp add: numeral_2_eq_2 ex_simps account_env_def account_fields_def account1_def
      account_validators_def account_registry_def unverified_def)

end
